theory Spec2Isabelle
  imports Main
begin

section \<open>QuestLog: the quest store, the settings store and the request handlers\<close>

text \<open>
  A shallow embedding of \<^verbatim>\<open>src/database/models.py\<close> and of the request handlers of
  \<^verbatim>\<open>src/main.py\<close>. A table is the list of its rows in rowid order; a handler takes
  the committed database and returns the committed database after the request together
  with either the exception that escaped the handler or the data of its response.
\<close>

subsection \<open>Data model (models.py)\<close>

text \<open>
  A naive \<^verbatim>\<open>datetime\<close> is the number of microseconds since 0001-01-01T00:00:00;
  its \<^verbatim>\<open>.date()\<close> is the number of whole days.
\<close>

type_synonym datetime = int

definition date :: "datetime \<Rightarrow> int" where
  "date dt = dt div 86400000000"

record quest =
  qid :: int
  title :: string
  description :: "string option"
  category :: "string option"
  parent_id :: "int option"
  is_completed :: bool
  deadline :: "datetime option"
  created_at :: datetime
  image_url :: "string option"
  position :: int

record settings =
  sid :: int
  hero_name :: string
  theme_name :: string
  xp :: int
  level :: int
  daily_quote :: "string option"
  last_quote_date :: "datetime option"

record db =
  quests :: "quest list"
  settings_rows :: "settings list"

datatype error = AttributeError

text \<open>\<^verbatim>\<open>Query.first()\<close>: the first row of the result, or \<^verbatim>\<open>None\<close>.\<close>

fun first :: "'a list \<Rightarrow> 'a option" where
  "first [] = None"
| "first (x # xs) = Some x"

definition quest_by_id :: "db \<Rightarrow> int \<Rightarrow> quest option" where
  "quest_by_id d i = first (filter (\<lambda>q. qid q = i) (quests d))"

definition main_quest_of :: "db \<Rightarrow> quest option" where
  "main_quest_of d = first (filter (\<lambda>q. category q = Some ''Main'') (quests d))"

definition children_of :: "db \<Rightarrow> int \<Rightarrow> quest list" where
  "children_of d p = filter (\<lambda>q. parent_id q = Some p) (quests d)"

text \<open>
  The session flushes a changed object as \<^verbatim>\<open>UPDATE ... WHERE id = ?\<close>, a deleted one
  as \<^verbatim>\<open>DELETE ... WHERE id = ?\<close>, and a new one as an \<^verbatim>\<open>INSERT\<close> whose integer
  primary key is one more than the largest key of the table.
\<close>

definition update_quest_row :: "quest \<Rightarrow> quest list \<Rightarrow> quest list" where
  "update_quest_row q' qs = map (\<lambda>r. if qid r = qid q' then q' else r) qs"

definition update_settings_row :: "settings \<Rightarrow> settings list \<Rightarrow> settings list" where
  "update_settings_row s' ss = map (\<lambda>r. if sid r = sid s' then s' else r) ss"

definition delete_quest_row :: "int \<Rightarrow> quest list \<Rightarrow> quest list" where
  "delete_quest_row i qs = filter (\<lambda>r. qid r \<noteq> i) qs"

definition next_id :: "int list \<Rightarrow> int" where
  "next_id ids = fold max ids 0 + 1"

text \<open>Python truthiness of a nullable integer and of a nullable string.\<close>

fun truthy_int :: "int option \<Rightarrow> bool" where
  "truthy_int None = False"
| "truthy_int (Some n) = (n \<noteq> 0)"

fun truthy_str :: "string option \<Rightarrow> bool" where
  "truthy_str None = False"
| "truthy_str (Some s) = (s \<noteq> [])"

subsection \<open>Binary64 arithmetic of the progress percentage\<close>

text \<open>
  \<^verbatim>\<open>int((completed_subquests / total_subquests) * 100)\<close> is computed in IEEE 754
  binary64: the true division of two integers is rounded to the nearest double (ties to
  even), the product with \<^verbatim>\<open>100\<close> is rounded again, and \<^verbatim>\<open>int\<close> truncates. A
  non-negative finite double is kept as the fraction \<open>(numerator, denominator)\<close> of its
  exact value. Counts of rows satisfy \<open>completed \<le> total\<close>, so no value overflows.
\<close>

fun bit_length :: "nat \<Rightarrow> nat" where
  "bit_length n = (if n = 0 then 0 else Suc (bit_length (n div 2)))"

declare bit_length.simps [simp del]

definition rne :: "nat \<Rightarrow> nat \<Rightarrow> nat" where
  \<comment> \<open>\<open>p / q\<close> rounded to the nearest integer, ties to the even one\<close>
  "rne p q =
     (let d = p div q; r = p mod q
      in if 2 * r < q then d
         else if q < 2 * r then d + 1
         else if even d then d else d + 1)"

definition ulp_exponent :: "nat \<Rightarrow> nat \<Rightarrow> int" where
  \<comment> \<open>the exponent \<open>e\<close> with \<open>2^52 \<le> (p / q) / 2^e < 2^53\<close>, at least that of the subnormals\<close>
  "ulp_exponent p q =
     (let l = int (bit_length p) - int (bit_length q);
          ge = (if 0 \<le> l then q * 2 ^ nat l \<le> p else q \<le> p * 2 ^ nat (- l))
      in max ((if ge then l else l - 1) - 52) (- 1074))"

definition round_double :: "nat \<Rightarrow> nat \<Rightarrow> nat \<times> nat" where
  "round_double p q =
     (if p = 0 then (0, 1)
      else let e = ulp_exponent p q;
               m = (if e \<le> 0 then rne (p * 2 ^ nat (- e)) q else rne p (q * 2 ^ nat e))
           in if 0 \<le> e then (m * 2 ^ nat e, 1) else (m, 2 ^ nat (- e)))"

definition true_div :: "nat \<Rightarrow> nat \<Rightarrow> nat \<times> nat" where
  "true_div k n = round_double k n"

definition float_mul_int :: "nat \<times> nat \<Rightarrow> nat \<Rightarrow> nat \<times> nat" where
  "float_mul_int x c = round_double (fst x * c) (snd x)"

definition float_to_int :: "nat \<times> nat \<Rightarrow> int" where
  "float_to_int x = int (fst x div snd x)"

definition progress_of :: "nat \<Rightarrow> nat \<Rightarrow> int" where
  "progress_of completed_subquests total_subquests =
     (if total_subquests > 0
      then float_to_int (float_mul_int (true_div completed_subquests total_subquests) 100)
      else 0)"

subsection \<open>Quest toggle (main.py, toggle\_quest)\<close>

definition xp_percent_of :: "int \<Rightarrow> nat \<times> nat" where
  \<comment> \<open>\<^verbatim>\<open>(settings.xp % 500) / 500 * 100\<close>, a double\<close>
  "xp_percent_of x = float_mul_int (true_div (nat (x mod 500)) 500) 100"

record toggle_response =
  tr_progress :: int
  tr_level :: int
  tr_xp :: int
  tr_xp_percent :: "nat \<times> nat"
  tr_toast :: bool

definition toggle_quest :: "int \<Rightarrow> db \<Rightarrow> db \<times> (error + toggle_response)" where
  "toggle_quest quest_id d =
     (case quest_by_id d quest_id of
        None \<Rightarrow> (d, Inl AttributeError)
      | Some q \<Rightarrow>
          (case first (settings_rows d) of
             None \<Rightarrow> (d, Inl AttributeError)
           | Some s \<Rightarrow>
               let previous_state = is_completed q;
                   q' = q\<lparr>is_completed := \<not> is_completed q\<rparr>;
                   xp_gain = 100;
                   s1 = (if is_completed q' \<and> \<not> previous_state
                         then s\<lparr>xp := xp s + xp_gain\<rparr>
                         else if \<not> is_completed q' \<and> previous_state
                         then s\<lparr>xp := max 0 (xp s - xp_gain)\<rparr>
                         else s);
                   new_level = 1 + xp s1 div 500;
                   s' = s1\<lparr>level := new_level\<rparr>;
                   d' = d\<lparr>quests := update_quest_row q' (quests d),
                          settings_rows := update_settings_row s' (settings_rows d)\<rparr>;
                   toast = (is_completed q' \<and> \<not> previous_state)
               in if truthy_int (parent_id q')
                  then (case quest_by_id d' (the (parent_id q')) of
                          None \<Rightarrow> (d', Inl AttributeError)
                        | Some parent \<Rightarrow>
                            let total_subquests = length (children_of d' (qid parent));
                                completed_subquests =
                                  length (filter is_completed (children_of d' (qid parent)))
                            in (d', Inr \<lparr>tr_progress = progress_of completed_subquests total_subquests,
                                        tr_level = level s', tr_xp = xp s',
                                        tr_xp_percent = xp_percent_of (xp s'), tr_toast = toast\<rparr>))
                  else (d', Inr \<lparr>tr_progress = 0, tr_level = level s', tr_xp = xp s',
                                 tr_xp_percent = xp_percent_of (xp s'), tr_toast = toast\<rparr>)))"

subsection \<open>Strings and dates of the standard library\<close>

text \<open>
  Text is ASCII here: a digit is one of \<^verbatim>\<open>0\<close> to \<^verbatim>\<open>9\<close>, and
  \<^verbatim>\<open>str.lower\<close> maps \<^verbatim>\<open>A\<close> to \<^verbatim>\<open>Z\<close> onto \<^verbatim>\<open>a\<close> to \<^verbatim>\<open>z\<close>.
\<close>

definition digit_val :: "char \<Rightarrow> nat option" where
  "digit_val c = map_of (zip ''0123456789'' [0, 1, 2, 3, 4, 5, 6, 7, 8, 9]) c"

definition is_digit :: "char \<Rightarrow> bool" where
  "is_digit c = (digit_val c \<noteq> None)"

definition digits_value :: "string \<Rightarrow> nat" where
  \<comment> \<open>\<^verbatim>\<open>int\<close> of a run of digits\<close>
  "digits_value ds = fold (\<lambda>c n. 10 * n + the (digit_val c)) ds 0"

definition lower_char :: "char \<Rightarrow> char" where
  "lower_char c =
     (case map_of (zip ''ABCDEFGHIJKLMNOPQRSTUVWXYZ'' ''abcdefghijklmnopqrstuvwxyz'') c of
        Some l \<Rightarrow> l
      | None \<Rightarrow> c)"

definition lower :: "string \<Rightarrow> string" where
  "lower s = map lower_char s"

fun starts_with :: "string \<Rightarrow> string \<Rightarrow> bool" where
  "starts_with [] s = True"
| "starts_with (p # ps) [] = False"
| "starts_with (p # ps) (c # cs) = (p = c \<and> starts_with ps cs)"

text \<open>\<^verbatim>\<open>needle in s\<close>\<close>

fun contains :: "string \<Rightarrow> string \<Rightarrow> bool" where
  "contains needle [] = (needle = [])"
| "contains needle (c # cs) = (starts_with needle (c # cs) \<or> contains needle cs)"

text \<open>\<^verbatim>\<open>re.search(r'\d+', s)\<close>: the first maximal run of digits, if any.\<close>

definition search_digits :: "string \<Rightarrow> string option" where
  "search_digits s =
     (let r = takeWhile is_digit (dropWhile (\<lambda>c. \<not> is_digit c) s)
      in if r = [] then None else Some r)"

text \<open>
  The proleptic Gregorian calendar of \<^verbatim>\<open>datetime\<close>: years 1 to 9999, and the
  ordinal of a day counted from 0001-01-01 as day 1.
\<close>

definition is_leap :: "nat \<Rightarrow> bool" where
  "is_leap y = (y mod 4 = 0 \<and> (y mod 100 \<noteq> 0 \<or> y mod 400 = 0))"

definition days_in_month :: "nat \<Rightarrow> nat \<Rightarrow> nat" where
  "days_in_month y m =
     (if m = 2 then (if is_leap y then 29 else 28)
      else if m = 4 \<or> m = 6 \<or> m = 9 \<or> m = 11 then 30 else 31)"

definition days_before_year :: "nat \<Rightarrow> nat" where
  "days_before_year y = (y - 1) * 365 + (y - 1) div 4 - (y - 1) div 100 + (y - 1) div 400"

definition days_before_month :: "nat \<Rightarrow> nat \<Rightarrow> nat" where
  "days_before_month y m = sum_list (map (days_in_month y) [1..<m])"

definition ymd_to_datetime :: "nat \<Rightarrow> nat \<Rightarrow> nat \<Rightarrow> datetime option" where
  \<comment> \<open>\<^verbatim>\<open>datetime(y, m, d)\<close> at midnight; \<^verbatim>\<open>None\<close> stands for its \<^verbatim>\<open>ValueError\<close>\<close>
  "ymd_to_datetime y m d =
     (if 1 \<le> y \<and> y \<le> 9999 \<and> 1 \<le> m \<and> m \<le> 12 \<and> 1 \<le> d \<and> d \<le> days_in_month y m
      then Some (int (days_before_year y + days_before_month y m + d - 1) * 86400000000)
      else None)"

definition max_datetime :: datetime where
  \<comment> \<open>9999-12-31T23:59:59.999999\<close>
  "max_datetime = 3652059 * 86400000000 - 1"

text \<open>
  \<^verbatim>\<open>datetime.strptime(s, "%Y-%m-%d")\<close>: the format compiles to the regular
  expression \<^verbatim>\<open>(\d\d\d\d)-(1[0-2]|0[1-9]|[1-9])-(3[01]|[12]\d|0[1-9]|[1-9]| [1-9])\<close>,
  which must match a prefix of the text and leave nothing over; the date must exist.
  \<^verbatim>\<open>None\<close> stands for the \<^verbatim>\<open>ValueError\<close>.
\<close>

definition is_digit19 :: "char \<Rightarrow> bool" where
  "is_digit19 c = (is_digit c \<and> c \<noteq> CHR ''0'')"

fun parse_year :: "string \<Rightarrow> (nat \<times> string) option" where
  "parse_year (a # b # c # d # rest) =
     (if is_digit a \<and> is_digit b \<and> is_digit c \<and> is_digit d
      then Some (digits_value [a, b, c, d], rest) else None)"
| "parse_year s = None"

fun parse_month :: "string \<Rightarrow> (nat \<times> string) option" where
  "parse_month [] = None"
| "parse_month (a # rest) =
     (case rest of
        b # rest' \<Rightarrow>
          if a = CHR ''1'' \<and> (b = CHR ''0'' \<or> b = CHR ''1'' \<or> b = CHR ''2'')
          then Some (digits_value [a, b], rest')
          else if a = CHR ''0'' \<and> is_digit19 b then Some (digits_value [a, b], rest')
          else if is_digit19 a then Some (digits_value [a], rest)
          else None
      | [] \<Rightarrow> if is_digit19 a then Some (digits_value [a], rest) else None)"

fun parse_day :: "string \<Rightarrow> (nat \<times> string) option" where
  "parse_day [] = None"
| "parse_day (a # rest) =
     (case rest of
        b # rest' \<Rightarrow>
          if a = CHR ''3'' \<and> (b = CHR ''0'' \<or> b = CHR ''1'')
          then Some (digits_value [a, b], rest')
          else if (a = CHR ''1'' \<or> a = CHR ''2'') \<and> is_digit b
          then Some (digits_value [a, b], rest')
          else if a = CHR ''0'' \<and> is_digit19 b then Some (digits_value [a, b], rest')
          else if is_digit19 a then Some (digits_value [a], rest)
          else if a = CHR '' '' \<and> is_digit19 b then Some (digits_value [b], rest')
          else None
      | [] \<Rightarrow> if is_digit19 a then Some (digits_value [a], rest) else None)"

fun expect_dash :: "string \<Rightarrow> string option" where
  "expect_dash [] = None"
| "expect_dash (c # cs) = (if c = CHR ''-'' then Some cs else None)"

definition strptime :: "string \<Rightarrow> datetime option" where
  "strptime s =
     (case parse_year s of
        None \<Rightarrow> None
      | Some (y, s1) \<Rightarrow>
          (case expect_dash s1 of
             None \<Rightarrow> None
           | Some s2 \<Rightarrow>
               (case parse_month s2 of
                  None \<Rightarrow> None
                | Some (m, s3) \<Rightarrow>
                    (case expect_dash s3 of
                       None \<Rightarrow> None
                     | Some s4 \<Rightarrow>
                         (case parse_day s4 of
                            None \<Rightarrow> None
                          | Some (dd, s5) \<Rightarrow>
                              if s5 = [] then ymd_to_datetime y m dd else None)))))"

text \<open>
  \<^verbatim>\<open>t + timedelta(days=n)\<close> for \<open>n > 0\<close>; \<^verbatim>\<open>None\<close> stands for the
  \<^verbatim>\<open>OverflowError\<close> of a \<^verbatim>\<open>timedelta\<close> beyond 999999999 days or of a date
  beyond the year 9999.
\<close>

definition add_days :: "datetime \<Rightarrow> int \<Rightarrow> datetime option" where
  "add_days t n =
     (if 999999999 < n then None
      else if max_datetime < t + n * 86400000000 then None
      else Some (t + n * 86400000000))"

subsection \<open>The collaborators of a request\<close>

record task =
  t_title :: string
  t_deadline :: string
  t_category :: string

text \<open>
  What a request reads from outside the store: the clocks (indexed by the place of the
  reading within the request) and the answers of the AI service, which never raises.
\<close>

record env =
  utcnow :: "nat \<Rightarrow> datetime"
  now :: "nat \<Rightarrow> datetime"
  generate_motivation :: "string \<Rightarrow> string"
  generate_subquests :: "string \<Rightarrow> task list"

text \<open>
  \<^verbatim>\<open>urllib.parse.quote\<close> on the bytes of the text: letters, digits and
  \<^verbatim>\<open>_.-~/\<close> stay, any other byte becomes \<^verbatim>\<open>%XX\<close>.
\<close>

definition hex_digit :: "nat \<Rightarrow> char" where
  "hex_digit n = ''0123456789ABCDEF'' ! (n mod 16)"

definition quote_char :: "char \<Rightarrow> string" where
  "quote_char c =
     (if c \<in> set ''ABCDEFGHIJKLMNOPQRSTUVWXYZabcdefghijklmnopqrstuvwxyz0123456789_.-~/''
      then [c]
      else [CHR ''%'', hex_digit (of_char c div 16), hex_digit (of_char c mod 16)])"

definition url_quote :: "string \<Rightarrow> string" where
  "url_quote s = concat (map quote_char s)"

definition get_vision_image :: "string \<Rightarrow> string" where
  "get_vision_image main_quest =
     ''https://image.pollinations.ai/prompt/''
     @ url_quote (''cyberpunk futuristic vision board style art for goal: '' @ main_quest
                  @ '', cinematic lighting, high quality, 8k'')
     @ ''?width=1200&height=400&nologo=true''"

subsection \<open>The quest card (main.py, render\_quest\_card)\<close>

text \<open>
  A card is kept as the data it shows: the date line is the deadline, or else the
  description, or else \<^verbatim>\<open>No deadline\<close>.
\<close>

record card =
  c_id :: int
  c_category :: "string option"
  c_title :: string
  c_completed :: bool
  c_overdue :: bool
  c_date_display :: "datetime + string"

definition card_of :: "datetime \<Rightarrow> quest \<Rightarrow> card" where
  "card_of utc q =
     \<lparr>c_id = qid q, c_category = category q, c_title = title q,
      c_completed = is_completed q,
      c_overdue = (case deadline q of
                     None \<Rightarrow> False
                   | Some dl \<Rightarrow> \<not> is_completed q \<and> dl < utc),
      c_date_display = (case deadline q of
                          Some dl \<Rightarrow> Inl dl
                        | None \<Rightarrow> Inr (if truthy_str (description q)
                                          then the (description q)
                                          else ''No deadline''))\<rparr>"

text \<open>Called with \<^verbatim>\<open>None\<close>, the helper fails at \<^verbatim>\<open>quest.deadline\<close>.\<close>

definition render_quest_card :: "datetime \<Rightarrow> quest option \<Rightarrow> error + card" where
  "render_quest_card utc qo =
     (case qo of
        None \<Rightarrow> Inl AttributeError
      | Some q \<Rightarrow> Inr (card_of utc q))"

subsection \<open>Quest update and inline edit (main.py, update\_quest, edit\_quest\_form, cancel\_edit\_quest)\<close>

definition update_quest ::
  "env \<Rightarrow> int \<Rightarrow> string \<Rightarrow> string option \<Rightarrow> db \<Rightarrow> db \<times> (error + card)" where
  "update_quest e quest_id new_title deadline_str d =
     (case quest_by_id d quest_id of
        None \<Rightarrow> (d, render_quest_card (utcnow e 0) None)
      | Some q \<Rightarrow>
          let q1 = q\<lparr>title := new_title\<rparr>;
              q2 = (if truthy_str deadline_str
                    then (case strptime (the deadline_str) of
                            Some dt \<Rightarrow> q1\<lparr>deadline := Some dt\<rparr>
                          | None \<Rightarrow> q1)
                    else q1\<lparr>deadline := None\<rparr>);
              d' = d\<lparr>quests := update_quest_row q2 (quests d)\<rparr>
          in (d', render_quest_card (utcnow e 0) (Some q2)))"

definition cancel_edit_quest :: "env \<Rightarrow> int \<Rightarrow> db \<Rightarrow> db \<times> (error + card)" where
  "cancel_edit_quest e quest_id d = (d, render_quest_card (utcnow e 0) (quest_by_id d quest_id))"

text \<open>The edit form shows the title and the deadline of the quest; a missing quest gives the empty text.\<close>

definition edit_quest_form :: "int \<Rightarrow> db \<Rightarrow> db \<times> (error + (int \<times> string \<times> datetime option) option)" where
  "edit_quest_form quest_id d =
     (case quest_by_id d quest_id of
        None \<Rightarrow> (d, Inr None)
      | Some q \<Rightarrow> (d, Inr (Some (qid q, title q, deadline q))))"

subsection \<open>Creating quests (main.py, onboarding\_submit, add\_quest, ai\_architect)\<close>

definition insert_quest :: "quest \<Rightarrow> quest list \<Rightarrow> quest list" where
  "insert_quest q qs = qs @ [q\<lparr>qid := next_id (map qid qs)\<rparr>]"

definition insert_settings :: "settings \<Rightarrow> settings list \<Rightarrow> settings list" where
  "insert_settings s ss = ss @ [s\<lparr>sid := next_id (map sid ss)\<rparr>]"

datatype redirect = HX_Redirect

definition onboarding_submit ::
  "env \<Rightarrow> string \<Rightarrow> string option \<Rightarrow> db \<Rightarrow> db \<times> (error + redirect)" where
  "onboarding_submit e goal deadline_str d =
     (let deadline_dt = (if truthy_str deadline_str then strptime (the deadline_str) else None);
          new_quest = \<lparr>qid = 0, title = goal, description = None, category = Some ''Main'',
                        parent_id = None, is_completed = False, deadline = deadline_dt,
                        created_at = utcnow e 0, image_url = Some (get_vision_image goal),
                        position = 0\<rparr>;
          new_settings = \<lparr>sid = 0, hero_name = ''Hero'', theme_name = ''Cyberpunk'', xp = 0,
                           level = 1, daily_quote = None, last_quote_date = None\<rparr>
      in (\<lparr>quests = insert_quest new_quest (quests d),
           settings_rows = (if first (settings_rows d) = None
                            then insert_settings new_settings (settings_rows d)
                            else settings_rows d)\<rparr>,
          Inr HX_Redirect))"

definition add_quest ::
  "env \<Rightarrow> string \<Rightarrow> string \<Rightarrow> db \<Rightarrow> db \<times> (error + card option)" where
  "add_quest e new_title new_category d =
     (case main_quest_of d of
        None \<Rightarrow> (d, Inr None)
      | Some main_quest \<Rightarrow>
          let max_pos = length (children_of d (qid main_quest));
              new_quest = \<lparr>qid = 0, title = new_title, description = Some ''Manual Entry'',
                            category = Some new_category, parent_id = Some (qid main_quest),
                            is_completed = False, deadline = None, created_at = utcnow e 0,
                            image_url = None, position = int max_pos\<rparr>;
              qs' = insert_quest new_quest (quests d)
          in (d\<lparr>quests := qs'\<rparr>, Inr (Some (card_of (utcnow e 1) (last qs')))))"

text \<open>
  The duration text of a task: the first integer (1 if there is none) times the factor
  of the first unit found, looked for in the order month, week, day, year. An exception
  of the arithmetic on dates is swallowed and leaves no deadline.
\<close>

definition days_to_add_of :: "string \<Rightarrow> int" where
  "days_to_add_of text =
     (let duration_str = lower text;
          num = (case search_digits duration_str of
                   Some ds \<Rightarrow> int (digits_value ds)
                 | None \<Rightarrow> 1)
      in if contains ''month'' duration_str then num * 30
         else if contains ''week'' duration_str then num * 7
         else if contains ''day'' duration_str then num
         else if contains ''year'' duration_str then num * 365
         else 0)"

definition deadline_of_duration :: "datetime \<Rightarrow> string \<Rightarrow> datetime option" where
  "deadline_of_duration now_reading text =
     (let days_to_add = days_to_add_of text
      in if days_to_add > 0 then add_days now_reading days_to_add else None)"

definition quest_of_task :: "env \<Rightarrow> quest \<Rightarrow> nat \<times> task \<Rightarrow> quest" where
  "quest_of_task e main_quest it =
     \<lparr>qid = 0, title = t_title (snd it),
      description = Some (''Duration: '' @ t_deadline (snd it)),
      category = Some (t_category (snd it)), parent_id = Some (qid main_quest),
      is_completed = False,
      deadline = deadline_of_duration (now e (fst it)) (t_deadline (snd it)),
      created_at = utcnow e (fst it), image_url = None, position = 0\<rparr>"

datatype architect_response = NoMainQuest | Cards "card list"

definition ai_architect :: "env \<Rightarrow> db \<Rightarrow> db \<times> (error + architect_response)" where
  "ai_architect e d =
     (case main_quest_of d of
        None \<Rightarrow> (d, Inr NoMainQuest)
      | Some main_quest \<Rightarrow>
          let tasks = generate_subquests e (title main_quest);
              new_rows = map (quest_of_task e main_quest) (enumerate 0 tasks);
              qs' = fold insert_quest new_rows (quests d);
              saved_quests = drop (length (quests d)) qs'
          in (d\<lparr>quests := qs'\<rparr>,
              Inr (Cards (map (\<lambda>iq. card_of (utcnow e (length tasks + fst iq)) (snd iq))
                              (enumerate 0 saved_quests)))))"

subsection \<open>Deleting a quest (main.py, delete\_quest)\<close>

definition delete_quest :: "int \<Rightarrow> db \<Rightarrow> db \<times> (error + int option)" where
  \<comment> \<open>the response is the progress ring, or the empty text\<close>
  "delete_quest quest_id d =
     (case quest_by_id d quest_id of
        None \<Rightarrow> (d, Inr None)
      | Some q \<Rightarrow>
          let d' = d\<lparr>quests := delete_quest_row (qid q) (quests d)\<rparr>
          in if truthy_int (parent_id q)
             then (case quest_by_id d' (the (parent_id q)) of
                     None \<Rightarrow> (d', Inl AttributeError)
                   | Some parent \<Rightarrow>
                       let total_subquests = length (children_of d' (qid parent));
                           completed_subquests =
                             length (filter is_completed (children_of d' (qid parent)))
                       in (d', Inr (Some (progress_of completed_subquests total_subquests))))
             else (d', Inr None))"

subsection \<open>The dashboard and the daily quote (main.py, read\_root)\<close>

record dashboard =
  d_main_quest :: "quest option"
  d_subquests :: "quest list"
  d_daily_quote :: "string option"
  d_level :: int
  d_xp :: int
  d_xp_percent :: "nat \<times> nat"

datatype root_response = FirstRun | Dashboard dashboard

definition dashboard_of :: "quest option \<Rightarrow> quest list \<Rightarrow> settings \<Rightarrow> root_response" where
  "dashboard_of main_quest subquests s =
     Dashboard \<lparr>d_main_quest = main_quest, d_subquests = subquests,
                d_daily_quote = daily_quote s, d_level = level s, d_xp = xp s,
                d_xp_percent = xp_percent_of (xp s)\<rparr>"

text \<open>
  Besides the store and the response, the model returns the quest titles for which a
  motivational quote was requested from the AI service, in order.
\<close>

definition read_root :: "env \<Rightarrow> db \<Rightarrow> db \<times> string list \<times> (error + root_response)" where
  "read_root e d =
     (case first (settings_rows d) of
        None \<Rightarrow> (d, [], Inr FirstRun)
      | Some s \<Rightarrow>
          (case main_quest_of d of
             None \<Rightarrow> (d, [], Inr (dashboard_of None [] s))
           | Some m0 \<Rightarrow>
               let main_quest = (if \<not> truthy_str (image_url m0)
                                 then m0\<lparr>image_url := Some (get_vision_image (title m0))\<rparr>
                                 else m0);
                   d1 = (if \<not> truthy_str (image_url m0)
                         then d\<lparr>quests := update_quest_row main_quest (quests d)\<rparr>
                         else d);
                   subquests = sort_key position (children_of d1 (qid main_quest));
                   today = date (utcnow e 0);
                   last_date = map_option date (last_quote_date s)
               in if last_date \<noteq> Some today
                  then let new_quote = generate_motivation e (title main_quest);
                           s' = s\<lparr>daily_quote := Some new_quote,
                                  last_quote_date := Some (utcnow e 1)\<rparr>;
                           d2 = d1\<lparr>settings_rows := update_settings_row s' (settings_rows d1)\<rparr>
                       in (d2, [title main_quest], Inr (dashboard_of (Some main_quest) subquests s'))
                  else (d1, [], Inr (dashboard_of (Some main_quest) subquests s))))"

subsection \<open>Reordering, settings update and reset (main.py, reorder\_quests, update\_settings, reset\_data)\<close>

fun split_on :: "char \<Rightarrow> string \<Rightarrow> string list" where
  "split_on sep [] = [[]]"
| "split_on sep (c # cs) =
     (if c = sep then [] # split_on sep cs
      else (case split_on sep cs of
              p # ps \<Rightarrow> (c # p) # ps
            | [] \<Rightarrow> [[c]]))"

definition is_space :: "char \<Rightarrow> bool" where
  "is_space c = (c \<in> set [CHR 0x20, CHR 0x09, CHR 0x0A, CHR 0x0B, CHR 0x0C, CHR 0x0D])"

definition strip :: "string \<Rightarrow> string" where
  "strip s = rev (dropWhile is_space (rev (dropWhile is_space s)))"

fun int_digits :: "string \<Rightarrow> nat \<Rightarrow> nat option" where
  "int_digits [] acc = Some acc"
| "int_digits (c # cs) acc =
     (if is_digit c then int_digits cs (10 * acc + the (digit_val c))
      else if c = CHR ''_''
      then (case cs of
              [] \<Rightarrow> None
            | c' # cs' \<Rightarrow> if is_digit c' then int_digits cs acc else None)
      else None)"

text \<open>\<^verbatim>\<open>int(s)\<close> of a text; \<^verbatim>\<open>None\<close> stands for the \<^verbatim>\<open>ValueError\<close>.\<close>

definition py_int :: "string \<Rightarrow> int option" where
  "py_int s =
     (let t = strip s;
          neg = starts_with ''-'' t;
          u = (if starts_with ''+'' t \<or> starts_with ''-'' t then tl t else t)
      in case u of
           [] \<Rightarrow> None
         | c # cs \<Rightarrow>
             if is_digit c
             then map_option (\<lambda>n. if neg then - int n else int n) (int_digits u 0)
             else None)"

text \<open>
  \<^verbatim>\<open>int(item_str.split("-")[1])\<close>; \<^verbatim>\<open>None\<close> stands for the \<^verbatim>\<open>IndexError\<close>
  or \<^verbatim>\<open>ValueError\<close> that skips the item.
\<close>

definition item_quest_id :: "string \<Rightarrow> int option" where
  "item_quest_id item_str =
     (let parts = split_on CHR ''-'' item_str
      in if 1 < length parts then py_int (parts ! 1) else None)"

fun reorder_loop :: "nat \<Rightarrow> string list \<Rightarrow> quest list \<Rightarrow> quest list" where
  "reorder_loop index [] qs = qs"
| "reorder_loop index (item_str # items) qs =
     (case item_quest_id item_str of
        None \<Rightarrow> reorder_loop (Suc index) items qs
      | Some quest_id \<Rightarrow>
          (case first (filter (\<lambda>q. qid q = quest_id) qs) of
             None \<Rightarrow> reorder_loop (Suc index) items qs
           | Some q \<Rightarrow>
               reorder_loop (Suc index) items
                 (update_quest_row (q\<lparr>position := int index\<rparr>) qs)))"

definition reorder_quests :: "string list \<Rightarrow> db \<Rightarrow> db \<times> (error + unit)" where
  "reorder_quests item d = (d\<lparr>quests := reorder_loop 0 item (quests d)\<rparr>, Inr ())"

definition update_settings :: "string \<Rightarrow> string \<Rightarrow> db \<Rightarrow> db \<times> (error + unit)" where
  "update_settings new_theme_name new_hero_name d =
     (case first (settings_rows d) of
        None \<Rightarrow> (d, Inr ())
      | Some s \<Rightarrow>
          (d\<lparr>settings_rows :=
               update_settings_row (s\<lparr>theme_name := new_theme_name, hero_name := new_hero_name\<rparr>)
                 (settings_rows d)\<rparr>,
           Inr ()))"

definition reset_data :: "db \<Rightarrow> db \<times> (error + redirect)" where
  "reset_data d = (\<lparr>quests = [], settings_rows = []\<rparr>, Inr HX_Redirect)"

subsection \<open>Requests and runs\<close>

datatype op =
    ReadRoot
  | ReorderQuests "string list"
  | UpdateSettings string string
  | AiArchitect
  | ToggleQuest int
  | DeleteQuest int
  | AddQuest string string
  | EditQuestForm int
  | CancelEditQuest int
  | UpdateQuest int string "string option"
  | OnboardingSubmit string "string option"
  | ResetData

text \<open>The committed store after a request.\<close>

fun apply_op :: "env \<Rightarrow> op \<Rightarrow> db \<Rightarrow> db" where
  "apply_op e ReadRoot d = fst (read_root e d)"
| "apply_op e (ReorderQuests item) d = fst (reorder_quests item d)"
| "apply_op e (UpdateSettings t h) d = fst (update_settings t h d)"
| "apply_op e AiArchitect d = fst (ai_architect e d)"
| "apply_op e (ToggleQuest i) d = fst (toggle_quest i d)"
| "apply_op e (DeleteQuest i) d = fst (delete_quest i d)"
| "apply_op e (AddQuest t c) d = fst (add_quest e t c d)"
| "apply_op e (EditQuestForm i) d = fst (edit_quest_form i d)"
| "apply_op e (CancelEditQuest i) d = fst (cancel_edit_quest e i d)"
| "apply_op e (UpdateQuest i t dl) d = fst (update_quest e i t dl d)"
| "apply_op e (OnboardingSubmit g dl) d = fst (onboarding_submit e g dl d)"
| "apply_op e ResetData d = fst (reset_data d)"

text \<open>A run: requests served one after the other, each with its own readings.\<close>

definition run :: "(env \<times> op) list \<Rightarrow> db \<Rightarrow> db" where
  "run steps d = fold (\<lambda>eo. apply_op (fst eo) (snd eo)) steps d"

definition empty_db :: db where
  "empty_db = \<lparr>quests = [], settings_rows = []\<rparr>"

subsection \<open>Sample stores\<close>

definition sample_env :: env where
  "sample_env =
     \<lparr>utcnow = (\<lambda>k. 63844761600000000 + int k),
      now = (\<lambda>k. 63844761600000000 + int k),
      generate_motivation = (\<lambda>t. ''Keep moving forward. Your vision awaits.''),
      generate_subquests =
        (\<lambda>t. [\<lparr>t_title = ''Research Running Shoes'', t_deadline = ''1 week'',
                  t_category = ''Preparation''\<rparr>])\<rparr>"

definition sample_quest :: quest where
  "sample_quest = \<lparr>qid = 1, title = ''Run a Marathon'', description = None,
     category = Some ''Main'', parent_id = None, is_completed = True, deadline = None,
     created_at = 0, image_url = None, position = 0\<rparr>"

definition fresh_settings :: settings where
  "fresh_settings = \<lparr>sid = 1, hero_name = ''Hero'', theme_name = ''Cyberpunk'', xp = 0,
     level = 1, daily_quote = None, last_quote_date = None\<rparr>"

definition migrated_db :: db where
  \<comment> \<open>a store whose \<^verbatim>\<open>xp\<close> column was added by \<^verbatim>\<open>init_db\<close> with its default 0
      while a completed quest was already there\<close>
  "migrated_db = \<lparr>quests = [sample_quest], settings_rows = [fresh_settings]\<rparr>"

definition earned_db :: db where
  "earned_db = \<lparr>quests = [sample_quest], settings_rows = [fresh_settings\<lparr>xp := 100\<rparr>]\<rparr>"

definition dated_quest :: quest where
  "dated_quest = sample_quest\<lparr>deadline := Some 63844761600000000\<rparr>"

definition dated_db :: db where
  "dated_db = \<lparr>quests = [dated_quest], settings_rows = [fresh_settings]\<rparr>"

definition quoted_settings :: settings where
  "quoted_settings = fresh_settings\<lparr>daily_quote := Some ''Begin.'',
      last_quote_date := Some 63844761600000000\<rparr>"

definition quoted_db :: db where
  "quoted_db = \<lparr>quests = [sample_quest], settings_rows = [quoted_settings]\<rparr>"

definition next_day_env :: env where
  "next_day_env = sample_env\<lparr>utcnow := (\<lambda>k. 63844848000000000 + int k)\<rparr>"

subsection \<open>Invariants of the store\<close>

text \<open>The Settings invariant: a non-negative XP and the level in step with it.\<close>

definition row_ok :: "settings \<Rightarrow> bool" where
  "row_ok s = (0 \<le> xp s \<and> level s = 1 + xp s div 500)"

definition settings_ok :: "db \<Rightarrow> bool" where
  "settings_ok d = list_all row_ok (settings_rows d)"

text \<open>The number of quests of category Main, and the uniqueness of the primary key.\<close>

definition main_count_rows :: "quest list \<Rightarrow> nat" where
  "main_count_rows qs = length (filter (\<lambda>q. category q = Some ''Main'') qs)"

definition main_count :: "db \<Rightarrow> nat" where
  "main_count d = length (filter (\<lambda>q. category q = Some ''Main'') (quests d))"

definition unique_ids :: "db \<Rightarrow> bool" where
  "unique_ids d = distinct (map qid (quests d))"

definition store_ok :: "db \<Rightarrow> db \<Rightarrow> bool" where
  \<comment> \<open>the ids stay unique and no quest of category Main is added\<close>
  "store_ok d d' = (unique_ids d' \<and> main_count d' \<le> main_count d)"

text \<open>
  The requests that cannot add a quest of category Main: an onboarding submit on a store
  without a Main Quest, and quest creation with another category.
\<close>

fun adds_no_main :: "env \<Rightarrow> op \<Rightarrow> db \<Rightarrow> bool" where
  "adds_no_main e (OnboardingSubmit g dl) d = (main_quest_of d = None)"
| "adds_no_main e (AddQuest t c) d = (c \<noteq> ''Main'')"
| "adds_no_main e AiArchitect d =
     (case main_quest_of d of
        None \<Rightarrow> True
      | Some m \<Rightarrow> list_all (\<lambda>t. t_category t \<noteq> ''Main'') (generate_subquests e (title m)))"
| "adds_no_main e other d = True"

fun guarded_run :: "(env \<times> op) list \<Rightarrow> db \<Rightarrow> bool" where
  "guarded_run [] d = True"
| "guarded_run (eo # steps) d =
     (adds_no_main (fst eo) (snd eo) d \<and> guarded_run steps (apply_op (fst eo) (snd eo) d))"

definition sample_steps :: "(env \<times> op) list" where
  "sample_steps =
     [(sample_env, OnboardingSubmit ''Run a Marathon'' None),
      (sample_env, AddQuest ''Buy shoes'' ''General''),
      (sample_env, AiArchitect),
      (sample_env, ToggleQuest 2),
      (sample_env, ReadRoot),
      (sample_env, ToggleQuest 2)]"

text \<open>
  The duration heuristic in the words of the specification: the first integer of the
  text, 1 if there is none, and the factor of the first unit keyword found, looked for
  in the order month, week, day, year.
\<close>

definition first_integer :: "string \<Rightarrow> int" where
  "first_integer text = (case search_digits text of Some ds \<Rightarrow> int (digits_value ds) | None \<Rightarrow> 1)"

definition unit_factor :: "string \<Rightarrow> int" where
  "unit_factor text =
     (if contains ''month'' text then 30
      else if contains ''week'' text then 7
      else if contains ''day'' text then 1
      else if contains ''year'' text then 365
      else 0)"

text \<open>Further sample stores, runs and collaborators.\<close>

definition crowd_child :: "nat \<Rightarrow> quest" where
  "crowd_child k = \<lparr>qid = int k, title = ''Step'', description = Some ''Manual Entry'',
     category = Some ''General'', parent_id = Some 1, is_completed = (k < 30), deadline = None,
     created_at = 0, image_url = None, position = int k - 2\<rparr>"

definition crowd_db :: db where
  "crowd_db = \<lparr>quests = sample_quest\<lparr>is_completed := False\<rparr> # map crowd_child [2..<52],
                settings_rows = [fresh_settings\<lparr>xp := 2800, level := 6\<rparr>]\<rparr>"

definition family_steps :: "(env \<times> op) list" where
  "family_steps =
     [(sample_env, OnboardingSubmit ''Run a Marathon'' None),
      (sample_env, AddQuest ''Buy shoes'' ''General''),
      (sample_env, AddQuest ''Join a club'' ''Social''),
      (sample_env, AiArchitect)]"

definition zero_days_env :: env where
  "zero_days_env = sample_env\<lparr>generate_subquests :=
     (\<lambda>t. [\<lparr>t_title = ''Rest'', t_deadline = ''0 days'', t_category = ''Health''\<rparr>])\<rparr>"

text \<open>The XP earned: every completed quest is backed by 100 XP.\<close>

definition completed_count :: "db \<Rightarrow> nat" where
  "completed_count d = length (filter is_completed (quests d))"

definition earned_ok :: "db \<Rightarrow> bool" where
  \<comment> \<open>every completed quest is backed by 100 XP of the Settings row in use\<close>
  "earned_ok d =
     (unique_ids d
      \<and> (case first (settings_rows d) of
            None \<Rightarrow> quests d = []
          | Some s \<Rightarrow> 100 * int (completed_count d) \<le> xp s))"

section \<open>Properties\<close>

subsection \<open>Queries and row updates\<close>

lemma first_filter_holds: "first (filter P xs) = Some x \<Longrightarrow> P x \<and> x \<in> set xs"
  by (induction xs) (auto split: if_splits)

lemma quest_by_id_qid: "quest_by_id d i = Some q \<Longrightarrow> qid q = i"
  unfolding quest_by_id_def by (drule first_filter_holds) simp

lemma first_filter_update:
  "first (filter (\<lambda>q. qid q = i) qs) = Some q \<Longrightarrow> qid q' = i \<Longrightarrow>
   first (filter (\<lambda>q. qid q = i) (update_quest_row q' qs)) = Some q'"
  by (induction qs) (auto simp: update_quest_row_def split: if_splits)

lemma first_update_settings:
  "first ss = Some s \<Longrightarrow> sid s' = sid s \<Longrightarrow> first (update_settings_row s' ss) = Some s'"
  by (cases ss) (auto simp: update_settings_row_def)

subsection \<open>The committed state after a toggle\<close>

lemma fst_toggle:
  assumes "quest_by_id d i = Some q" "first (settings_rows d) = Some s"
  shows "fst (toggle_quest i d) =
     d\<lparr>quests := update_quest_row (q\<lparr>is_completed := \<not> is_completed q\<rparr>) (quests d),
       settings_rows := update_settings_row
         (if is_completed q
          then s\<lparr>xp := max 0 (xp s - 100), level := 1 + max 0 (xp s - 100) div 500\<rparr>
          else s\<lparr>xp := xp s + 100, level := 1 + (xp s + 100) div 500\<rparr>) (settings_rows d)\<rparr>"
  using assms by (simp add: toggle_quest_def Let_def split: option.splits)

subsection \<open>Two toggles in a row\<close>

lemma toggle_twice_settings:
  assumes q: "quest_by_id d i = Some q" and s: "first (settings_rows d) = Some s"
    and lv: "level s = 1 + xp s div 500"
    and x: "if is_completed q then 100 \<le> xp s else 0 \<le> xp s"
  shows "first (settings_rows (fst (toggle_quest i (fst (toggle_quest i d))))) = Some s"
proof -
  define q1 where "q1 = q\<lparr>is_completed := \<not> is_completed q\<rparr>"
  define s1 where "s1 = (if is_completed q
          then s\<lparr>xp := max 0 (xp s - 100), level := 1 + max 0 (xp s - 100) div 500\<rparr>
          else s\<lparr>xp := xp s + 100, level := 1 + (xp s + 100) div 500\<rparr>)"
  define d1 where "d1 = fst (toggle_quest i d)"
  have d1: "d1 = d\<lparr>quests := update_quest_row q1 (quests d),
       settings_rows := update_settings_row s1 (settings_rows d)\<rparr>"
    unfolding d1_def q1_def s1_def by (rule fst_toggle [OF q s])
  have qi: "qid q = i" by (rule quest_by_id_qid [OF q])
  have q1': "quest_by_id d1 i = Some q1"
    using q qi by (simp add: d1 quest_by_id_def first_filter_update q1_def)
  have s1': "first (settings_rows d1) = Some s1"
    using s by (simp add: d1 first_update_settings s1_def)
  have "first (settings_rows (fst (toggle_quest i d1))) = Some
      (if is_completed q1
          then s1\<lparr>xp := max 0 (xp s1 - 100), level := 1 + max 0 (xp s1 - 100) div 500\<rparr>
          else s1\<lparr>xp := xp s1 + 100, level := 1 + (xp s1 + 100) div 500\<rparr>)"
    by (simp add: fst_toggle [OF q1' s1'] first_update_settings [OF s1'])
  also have "(if is_completed q1
          then s1\<lparr>xp := max 0 (xp s1 - 100), level := 1 + max 0 (xp s1 - 100) div 500\<rparr>
          else s1\<lparr>xp := xp s1 + 100, level := 1 + (xp s1 + 100) div 500\<rparr>) = s"
    using lv x by (cases "is_completed q") (simp_all add: q1_def s1_def)
  finally show ?thesis unfolding d1_def .
qed

subsection \<open>C1: toggling twice\<close>

text \<open>
  C1, as stated, fails: in a store where a completed quest meets fewer than 100 XP, the
  first toggle clamps the XP at 0 and the second one awards 100. In \<open>migrated_db\<close> the XP
  goes from 0 to 100 over the two toggles.
\<close>

theorem toggle_twice_counterexample:
  "map xp (settings_rows (fst (toggle_quest 1 (fst (toggle_quest 1 migrated_db))))) = [100]
   \<and> map xp (settings_rows migrated_db) = [0]"
  by (simp add: toggle_quest_def migrated_db_def sample_quest_def fresh_settings_def
      quest_by_id_def update_quest_row_def update_settings_row_def Let_def)

text \<open>
  C1 (amended): for an existing quest and a Settings row whose level is
  \<open>1 + xp div 500\<close>, with at least 100 XP when the quest is completed and a non-negative
  XP when it is not, two consecutive toggles of the quest return the Settings row, and so
  its XP and level, to exactly the original values.
\<close>

theorem toggle_twice_restores:
  assumes "quest_by_id d i = Some q" and "first (settings_rows d) = Some s"
    and "level s = 1 + xp s div 500"
    and "if is_completed q then 100 \<le> xp s else 0 \<le> xp s"
  shows "first (settings_rows (fst (toggle_quest i (fst (toggle_quest i d))))) = Some s"
  using assms by (rule toggle_twice_settings)

theorem toggle_twice_restores_witness:
  "first (settings_rows (fst (toggle_quest 1 (fst (toggle_quest 1 earned_db)))))
     = Some (fresh_settings\<lparr>xp := 100\<rparr>)"
  using toggle_twice_restores [of earned_db 1 sample_quest "fresh_settings\<lparr>xp := 100\<rparr>"]
  by (simp add: earned_db_def sample_quest_def fresh_settings_def quest_by_id_def)

subsection \<open>The committed state after a quest update\<close>

lemma first_filter_other:
  "j \<noteq> qid q' \<Longrightarrow>
   first (filter (\<lambda>q. qid q = j) (update_quest_row q' qs)) = first (filter (\<lambda>q. qid q = j) qs)"
  by (induction qs) (auto simp: update_quest_row_def)

lemma fst_update_quest:
  assumes "quest_by_id d i = Some q"
  shows "fst (update_quest e i t dl d) =
     d\<lparr>quests := update_quest_row
        (q\<lparr>title := t,
           deadline := (if truthy_str dl
                        then (case strptime (the dl) of Some dt \<Rightarrow> Some dt | None \<Rightarrow> deadline q)
                        else None)\<rparr>) (quests d)\<rparr>"
  using assms by (simp add: update_quest_def Let_def split: option.splits)

subsection \<open>C10: what a quest update changes\<close>

text \<open>
  C10: for an existing quest, the PUT update sets the title, clears the deadline when the
  submitted deadline is absent or empty, and leaves every other field of the quest
  (category, parent link, completion flag, position, description, image URL, creation
  timestamp, id), every other quest and the Settings rows unchanged.
\<close>

theorem update_quest_frame:
  assumes q: "quest_by_id d i = Some q"
  shows "\<exists>q'. quest_by_id (fst (update_quest e i t dl d)) i = Some q'
           \<and> title q' = t
           \<and> (\<not> truthy_str dl \<longrightarrow> deadline q' = None)
           \<and> q'\<lparr>title := title q, deadline := deadline q\<rparr> = q
           \<and> (\<forall>j. j \<noteq> i \<longrightarrow> quest_by_id (fst (update_quest e i t dl d)) j = quest_by_id d j)
           \<and> length (quests (fst (update_quest e i t dl d))) = length (quests d)
           \<and> settings_rows (fst (update_quest e i t dl d)) = settings_rows d"
proof -
  define q' where "q' = q\<lparr>title := t,
           deadline := (if truthy_str dl
                        then (case strptime (the dl) of Some dt \<Rightarrow> Some dt | None \<Rightarrow> deadline q)
                        else None)\<rparr>"
  have qi: "qid q = i" by (rule quest_by_id_qid [OF q])
  have d': "fst (update_quest e i t dl d) = d\<lparr>quests := update_quest_row q' (quests d)\<rparr>"
    unfolding q'_def by (rule fst_update_quest [OF q])
  have 1: "quest_by_id (fst (update_quest e i t dl d)) i = Some q'"
    using q qi by (simp add: d' quest_by_id_def first_filter_update q'_def)
  have 2: "\<forall>j. j \<noteq> i \<longrightarrow> quest_by_id (fst (update_quest e i t dl d)) j = quest_by_id d j"
    using qi by (simp add: d' quest_by_id_def first_filter_other q'_def)
  have 3: "q'\<lparr>title := title q, deadline := deadline q\<rparr> = q"
    by (simp add: q'_def)
  have 4: "length (quests (fst (update_quest e i t dl d))) = length (quests d)"
    by (simp add: d' update_quest_row_def)
  show ?thesis
    using 1 2 3 4 by (intro exI [of _ q']) (simp add: d', simp add: q'_def)
qed

theorem update_quest_frame_witness:
  "\<exists>q'. quest_by_id (fst (update_quest sample_env 1 ''Run 10 km'' None dated_db)) 1 = Some q'
           \<and> title q' = ''Run 10 km'' \<and> deadline q' = None
           \<and> q'\<lparr>title := title dated_quest, deadline := deadline dated_quest\<rparr> = dated_quest"
  using update_quest_frame [of dated_db 1 dated_quest sample_env "''Run 10 km''" None]
  by (auto simp add: dated_db_def dated_quest_def sample_quest_def quest_by_id_def)

subsection \<open>C6: deadline strings\<close>

text \<open>
  C6, as stated, fails: an update with a date string that does not parse keeps the
  deadline the quest had, it does not set it to null.
\<close>

theorem invalid_date_counterexample:
  "map deadline (quests (fst (update_quest sample_env 1 ''Run a Marathon'' (Some ''not-a-date'') dated_db)))
     = [Some 63844761600000000]
   \<and> strptime ''not-a-date'' = None"
  by (simp add: update_quest_def dated_db_def dated_quest_def sample_quest_def quest_by_id_def
      update_quest_row_def strptime_def is_digit_def digit_val_def Let_def)

text \<open>
  C6 (amended): an update of an existing quest and an onboarding submit never raise an
  error to the caller, whatever the deadline string. An absent or empty string yields a
  null deadline and a date that parses yields that date; a string that does not parse
  leaves the prior deadline of an updated quest unchanged, and gives the new Main Quest
  of an onboarding submit a null deadline.
\<close>

theorem deadline_parsing:
  assumes q: "quest_by_id d i = Some q"
  shows "(\<exists>c q'. snd (update_quest e i t dl d) = Inr c
            \<and> quest_by_id (fst (update_quest e i t dl d)) i = Some q'
            \<and> deadline q' = (if \<not> truthy_str dl then None
                              else case strptime (the dl) of Some dt \<Rightarrow> Some dt | None \<Rightarrow> deadline q))
       \<and> snd (onboarding_submit e g dl d0) = Inr HX_Redirect
       \<and> map deadline (drop (length (quests d0)) (quests (fst (onboarding_submit e g dl d0))))
           = [if \<not> truthy_str dl then None else strptime (the dl)]"
proof -
  define q' where "q' = q\<lparr>title := t,
           deadline := (if truthy_str dl
                        then (case strptime (the dl) of Some dt \<Rightarrow> Some dt | None \<Rightarrow> deadline q)
                        else None)\<rparr>"
  have qi: "qid q = i" by (rule quest_by_id_qid [OF q])
  have d': "fst (update_quest e i t dl d) = d\<lparr>quests := update_quest_row q' (quests d)\<rparr>"
    unfolding q'_def by (rule fst_update_quest [OF q])
  have 1: "quest_by_id (fst (update_quest e i t dl d)) i = Some q'"
    using q qi by (simp add: d' quest_by_id_def first_filter_update q'_def)
  have 2: "\<exists>c. snd (update_quest e i t dl d) = Inr c"
    using q by (simp add: update_quest_def render_quest_card_def Let_def)
  have 3: "deadline q' = (if \<not> truthy_str dl then None
                              else case strptime (the dl) of Some dt \<Rightarrow> Some dt | None \<Rightarrow> deadline q)"
    by (simp add: q'_def)
  have 4: "snd (onboarding_submit e g dl d0) = Inr HX_Redirect"
    by (simp add: onboarding_submit_def Let_def)
  have 5: "map deadline (drop (length (quests d0)) (quests (fst (onboarding_submit e g dl d0))))
           = [if \<not> truthy_str dl then None else strptime (the dl)]"
    by (simp add: onboarding_submit_def Let_def insert_quest_def)
  from 1 2 3 4 5 show ?thesis by blast
qed

theorem deadline_parsing_witness:
  "(\<exists>c q'. snd (update_quest sample_env 1 ''Run'' (Some ''2024-13-01'') dated_db) = Inr c
      \<and> quest_by_id (fst (update_quest sample_env 1 ''Run'' (Some ''2024-13-01'') dated_db)) 1
          = Some q'
      \<and> deadline q' = Some 63844761600000000)
   \<and> map deadline (drop (length (quests empty_db))
        (quests (fst (onboarding_submit sample_env ''Run'' (Some ''2024-13-01'') empty_db))))
      = [None]"
proof -
  have p: "strptime ''2024-13-01'' = None"
    by (simp add: strptime_def is_digit_def is_digit19_def digit_val_def digits_value_def
        ymd_to_datetime_def)
  have q: "quest_by_id dated_db 1 = Some dated_quest"
    by (simp add: dated_db_def dated_quest_def sample_quest_def quest_by_id_def)
  show ?thesis
    using deadline_parsing [OF q, of sample_env "''Run''" "Some ''2024-13-01''" "''Run''" empty_db]
    by (simp add: p dated_quest_def)
qed

subsection \<open>C3: requests that name a missing quest\<close>

text \<open>
  C3 fails on the code: with a Settings row present, a toggle, a cancel and an update
  that name a quest id absent from the store escape with an \<^verbatim>\<open>AttributeError\<close>
  (the store is left as it was), while the edit form and the delete of the same id give
  the empty response.
\<close>

theorem missing_quest_raises:
  "toggle_quest 7 earned_db = (earned_db, Inl AttributeError)
   \<and> cancel_edit_quest sample_env 7 earned_db = (earned_db, Inl AttributeError)
   \<and> update_quest sample_env 7 ''Title'' None earned_db = (earned_db, Inl AttributeError)
   \<and> edit_quest_form 7 earned_db = (earned_db, Inr None)
   \<and> delete_quest 7 earned_db = (earned_db, Inr None)"
  by (simp add: toggle_quest_def cancel_edit_quest_def update_quest_def edit_quest_form_def
      delete_quest_def render_quest_card_def quest_by_id_def earned_db_def sample_quest_def)

subsection \<open>C8: the daily quote\<close>

lemma first_update_settings_same:
  "first ss = Some s \<Longrightarrow> first (update_settings_row (s\<lparr>daily_quote := a, last_quote_date := b\<rparr>) ss)
     = Some (s\<lparr>daily_quote := a, last_quote_date := b\<rparr>)"
  by (rule first_update_settings) simp_all

text \<open>
  C8: on a dashboard load (a Settings row exists). Without a Main Quest the store is left
  as it is and no quote is requested. With a Main Quest, if the calendar date of
  \<open>last_quote_date\<close> is today's, no quote is requested, the Settings rows are unchanged
  and the cached \<open>daily_quote\<close> is returned; if the dates differ or \<open>last_quote_date\<close> is
  null, one quote is requested for the title of the Main Quest, \<open>daily_quote\<close> becomes the
  new quote, \<open>last_quote_date\<close> the current time, and the new quote is returned.
\<close>

theorem daily_quote_refresh:
  assumes s: "first (settings_rows d) = Some s"
  shows "(main_quest_of d = None \<longrightarrow>
            fst (read_root e d) = d \<and> fst (snd (read_root e d)) = []
            \<and> snd (snd (read_root e d)) = Inr (dashboard_of None [] s))
       \<and> (\<forall>m. main_quest_of d = Some m
                 \<and> map_option date (last_quote_date s) = Some (date (utcnow e 0)) \<longrightarrow>
            fst (snd (read_root e d)) = []
            \<and> settings_rows (fst (read_root e d)) = settings_rows d
            \<and> (\<exists>b. snd (snd (read_root e d)) = Inr (Dashboard b) \<and> d_daily_quote b = daily_quote s))
       \<and> (\<forall>m. main_quest_of d = Some m
                 \<and> map_option date (last_quote_date s) \<noteq> Some (date (utcnow e 0)) \<longrightarrow>
            fst (snd (read_root e d)) = [title m]
            \<and> first (settings_rows (fst (read_root e d)))
                = Some (s\<lparr>daily_quote := Some (generate_motivation e (title m)),
                          last_quote_date := Some (utcnow e 1)\<rparr>)
            \<and> (\<exists>b. snd (snd (read_root e d)) = Inr (Dashboard b)
                    \<and> d_daily_quote b = Some (generate_motivation e (title m))))"
  using s
  by (auto simp add: read_root_def Let_def dashboard_of_def first_update_settings_same)

theorem daily_quote_refresh_witness:
  "fst (snd (read_root sample_env quoted_db)) = []
   \<and> settings_rows (fst (read_root sample_env quoted_db)) = [quoted_settings]
   \<and> fst (snd (read_root next_day_env quoted_db)) = [''Run a Marathon'']
   \<and> first (settings_rows (fst (read_root next_day_env quoted_db)))
       = Some (quoted_settings\<lparr>daily_quote := Some ''Keep moving forward. Your vision awaits.'',
                 last_quote_date := Some 63844848000000001\<rparr>)"
  using daily_quote_refresh [of quoted_db quoted_settings sample_env]
    daily_quote_refresh [of quoted_db quoted_settings next_day_env]
  by (simp add: quoted_db_def quoted_settings_def fresh_settings_def sample_quest_def
      main_quest_of_def sample_env_def next_day_env_def date_def)

subsection \<open>Every request preserves the Settings invariant\<close>

lemma first_in_set: "first xs = Some x \<Longrightarrow> x \<in> set xs"
  by (cases xs) auto

lemma list_all_update_settings:
  "list_all P ss \<Longrightarrow> P s' \<Longrightarrow> list_all P (update_settings_row s' ss)"
  by (induction ss) (auto simp: update_settings_row_def)

lemma first_row_ok: "settings_ok d \<Longrightarrow> first (settings_rows d) = Some s \<Longrightarrow> row_ok s"
  by (auto simp: settings_ok_def list_all_iff dest: first_in_set)

lemma settings_ok_update:
  "settings_ok d \<Longrightarrow> row_ok s' \<Longrightarrow> settings_rows d' = update_settings_row s' (settings_rows d)
   \<Longrightarrow> settings_ok d'"
  by (simp add: settings_ok_def list_all_update_settings)

lemma settings_ok_same: "settings_ok d \<Longrightarrow> settings_rows d' = settings_rows d \<Longrightarrow> settings_ok d'"
  by (simp add: settings_ok_def)

lemma settings_ok_toggle: "settings_ok d \<Longrightarrow> settings_ok (fst (toggle_quest i d))"
proof -
  assume ok: "settings_ok d"
  show ?thesis
  proof (cases "quest_by_id d i")
    case None
    with ok show ?thesis by (simp add: toggle_quest_def)
  next
    case q: (Some q)
    show ?thesis
    proof (cases "first (settings_rows d)")
      case None
      with q ok show ?thesis by (simp add: toggle_quest_def)
    next
      case (Some s)
      have "row_ok s" by (rule first_row_ok [OF ok Some])
      then have "row_ok (if is_completed q
          then s\<lparr>xp := max 0 (xp s - 100), level := 1 + max 0 (xp s - 100) div 500\<rparr>
          else s\<lparr>xp := xp s + 100, level := 1 + (xp s + 100) div 500\<rparr>)"
        by (simp add: row_ok_def)
      then show ?thesis
        by (rule settings_ok_update [OF ok]) (simp add: fst_toggle [OF q Some])
    qed
  qed
qed

lemma settings_ok_read_root: "settings_ok d \<Longrightarrow> settings_ok (fst (read_root e d))"
proof -
  assume ok: "settings_ok d"
  show ?thesis
  proof (cases "first (settings_rows d)")
    case None
    with ok show ?thesis by (simp add: read_root_def)
  next
    case (Some s)
    have r: "row_ok s" by (rule first_row_ok [OF ok Some])
    show ?thesis
    proof (cases "main_quest_of d")
      case None
      with Some ok show ?thesis by (simp add: read_root_def)
    next
      case m: (Some m)
      show ?thesis
      proof (cases "map_option date (last_quote_date s) = Some (date (utcnow e 0))")
        case True
        show ?thesis
          by (rule settings_ok_same [OF ok]) (use True in \<open>auto simp add: read_root_def Some m Let_def\<close>)
      next
        case False
        have "row_ok (s\<lparr>daily_quote := Some (generate_motivation e (title m)),
                        last_quote_date := Some (utcnow e 1)\<rparr>)"
          using r by (simp add: row_ok_def)
        then show ?thesis
          by (rule settings_ok_update [OF ok]) (use False in \<open>auto simp add: read_root_def Some m Let_def\<close>)
      qed
    qed
  qed
qed

lemma settings_ok_update_settings: "settings_ok d \<Longrightarrow> settings_ok (fst (update_settings t h d))"
proof -
  assume ok: "settings_ok d"
  show ?thesis
  proof (cases "first (settings_rows d)")
    case None
    with ok show ?thesis by (simp add: update_settings_def)
  next
    case (Some s)
    have "row_ok (s\<lparr>theme_name := t, hero_name := h\<rparr>)"
      using first_row_ok [OF ok Some] by (simp add: row_ok_def)
    then show ?thesis
      by (rule settings_ok_update [OF ok]) (simp add: update_settings_def Some)
  qed
qed

lemma settings_ok_onboarding: "settings_ok d \<Longrightarrow> settings_ok (fst (onboarding_submit e g dl d))"
  by (auto simp: onboarding_submit_def settings_ok_def insert_settings_def row_ok_def Let_def)

lemma settings_ok_step: "settings_ok d \<Longrightarrow> settings_ok (apply_op e op d)"
proof (cases op)
  case ReadRoot then show "settings_ok d \<Longrightarrow> ?thesis" by (simp add: settings_ok_read_root)
next
  case (ToggleQuest i) then show "settings_ok d \<Longrightarrow> ?thesis" by (simp add: settings_ok_toggle)
next
  case (UpdateSettings t h) then show "settings_ok d \<Longrightarrow> ?thesis" by (simp add: settings_ok_update_settings)
next
  case (OnboardingSubmit g dl) then show "settings_ok d \<Longrightarrow> ?thesis" by (simp add: settings_ok_onboarding)
next
  case (ReorderQuests x) then show "settings_ok d \<Longrightarrow> ?thesis" by (simp add: reorder_quests_def settings_ok_def)
next
  case AiArchitect then show "settings_ok d \<Longrightarrow> ?thesis"
    by (simp add: ai_architect_def settings_ok_def Let_def split: option.splits)
next
  case (DeleteQuest i) then show "settings_ok d \<Longrightarrow> ?thesis"
    by (simp add: delete_quest_def settings_ok_def Let_def split: option.splits)
next
  case (AddQuest t c) then show "settings_ok d \<Longrightarrow> ?thesis"
    by (simp add: add_quest_def settings_ok_def Let_def split: option.splits)
next
  case (EditQuestForm i) then show "settings_ok d \<Longrightarrow> ?thesis"
    by (simp add: edit_quest_form_def settings_ok_def split: option.splits)
next
  case (CancelEditQuest i) then show "settings_ok d \<Longrightarrow> ?thesis"
    by (simp add: cancel_edit_quest_def)
next
  case (UpdateQuest i t dl) then show "settings_ok d \<Longrightarrow> ?thesis"
    by (simp add: update_quest_def settings_ok_def Let_def split: option.splits)
next
  case ResetData then show "settings_ok d \<Longrightarrow> ?thesis" by (simp add: reset_data_def settings_ok_def)
qed

lemma settings_ok_run: "settings_ok d \<Longrightarrow> settings_ok (run steps d)"
  unfolding run_def by (induction steps arbitrary: d) (simp_all add: settings_ok_step)

lemma settings_ok_empty: "settings_ok empty_db"
  by (simp add: settings_ok_def empty_db_def)

lemma toggle_clamp:
  assumes "quest_by_id d i = Some q" "is_completed q" "first (settings_rows d) = Some s"
  shows "first (settings_rows (fst (toggle_quest i d)))
           = Some (s\<lparr>xp := max 0 (xp s - 100), level := 1 + max 0 (xp s - 100) div 500\<rparr>)"
  using assms by (simp add: fst_toggle first_update_settings)

subsection \<open>C2: XP and level stay in step\<close>

text \<open>
  C2: every request preserves the Settings invariant (each Settings row has a
  non-negative XP and the level \<open>1 + xp div 500\<close>), so it holds in every store reached
  from the empty one; and the toggle of a completed quest sets the XP to
  \<open>max 0 (xp - 100)\<close> and the level to \<open>1 + xp div 500\<close> of that new XP.
\<close>

theorem settings_invariant:
  "(\<forall>e op d. settings_ok d \<longrightarrow> settings_ok (apply_op e op d))
   \<and> (\<forall>steps. settings_ok (run steps empty_db))
   \<and> (\<forall>i d q s. quest_by_id d i = Some q \<and> is_completed q \<and> first (settings_rows d) = Some s
         \<longrightarrow> first (settings_rows (fst (toggle_quest i d)))
               = Some (s\<lparr>xp := max 0 (xp s - 100), level := 1 + max 0 (xp s - 100) div 500\<rparr>))"
  by (simp add: settings_ok_step settings_ok_run settings_ok_empty toggle_clamp)

theorem settings_invariant_witness:
  "settings_ok (run sample_steps empty_db)
   \<and> first (settings_rows (fst (toggle_quest 1 migrated_db))) = Some fresh_settings"
proof -
  have q: "quest_by_id migrated_db 1 = Some sample_quest \<and> is_completed sample_quest
      \<and> first (settings_rows migrated_db) = Some fresh_settings"
    by (simp add: migrated_db_def quest_by_id_def sample_quest_def)
  from settings_invariant have "settings_ok (run sample_steps empty_db)" by blast
  moreover from settings_invariant q
  have "first (settings_rows (fst (toggle_quest 1 migrated_db)))
      = Some (fresh_settings\<lparr>xp := max 0 (xp fresh_settings - 100),
                level := 1 + max 0 (xp fresh_settings - 100) div 500\<rparr>)"
    by blast
  ultimately show ?thesis by (simp add: fresh_settings_def)
qed

subsection \<open>Unique ids and the number of Main quests\<close>

lemma fold_max_ge: "(a::int) \<le> fold max ids a"
  by (induction ids arbitrary: a) (auto intro: order_trans [OF max.cobounded2])

lemma fold_max_mem: "x \<in> set ids \<Longrightarrow> (x::int) \<le> fold max ids a"
proof (induction ids arbitrary: a)
  case Nil then show ?case by simp
next
  case (Cons y ys)
  show ?case
  proof (cases "x = y")
    case True
    have "y \<le> max y a" by simp
    also have "\<dots> \<le> fold max ys (max y a)" by (rule fold_max_ge)
    finally show ?thesis using True by simp
  next
    case False
    with Cons show ?thesis by simp
  qed
qed

lemma next_id_fresh: "next_id ids \<notin> set ids"
proof
  assume "next_id ids \<in> set ids"
  from fold_max_mem [OF this, of 0] show False by (simp add: next_id_def)
qed

lemma distinct_insert_quest: "distinct (map qid qs) \<Longrightarrow> distinct (map qid (insert_quest q qs))"
  using next_id_fresh [of "map qid qs"] by (simp add: insert_quest_def)

lemma distinct_fold_insert:
  "distinct (map qid qs) \<Longrightarrow> distinct (map qid (fold insert_quest rows qs))"
  by (induction rows arbitrary: qs) (simp_all add: distinct_insert_quest)

lemma map_qid_update: "map qid (update_quest_row q' qs) = map qid qs"
  by (induction qs) (auto simp: update_quest_row_def)

lemma distinct_qid_eq:
  "distinct (map qid qs) \<Longrightarrow> r \<in> set qs \<Longrightarrow> q \<in> set qs \<Longrightarrow> qid r = qid q \<Longrightarrow> r = q"
  by (auto simp: distinct_map dest: inj_onD)

lemma map_category_update:
  assumes "distinct (map qid qs)" "q \<in> set qs" "qid q' = qid q" "category q' = category q"
  shows "map category (update_quest_row q' qs) = map category qs"
  unfolding update_quest_row_def
  using distinct_qid_eq [OF assms(1) _ assms(2)] assms(3,4) by (auto simp: map_eq_conv)

lemma main_count_rows_category:
  "map category qs' = map category qs \<Longrightarrow> main_count_rows qs' = main_count_rows qs"
proof (induction qs' arbitrary: qs)
  case Nil
  then show ?case by simp
next
  case (Cons a as)
  then obtain b bs where qs: "qs = b # bs" and c: "category a = category b"
    and r: "map category as = map category bs"
    by (cases qs) auto
  from Cons.IH [OF r] have "main_count_rows as = main_count_rows bs" .
  with c show ?case by (simp add: qs main_count_rows_def)
qed

lemma main_count_alt: "main_count d = main_count_rows (quests d)"
  by (simp add: main_count_def main_count_rows_def)

lemma main_count_update:
  assumes "distinct (map qid qs)" "first (filter P qs) = Some q" "qid q' = qid q"
    "category q' = category q"
  shows "main_count_rows (update_quest_row q' qs) = main_count_rows qs"
  using assms first_filter_holds [OF assms(2)]
  by (intro main_count_rows_category map_category_update) auto

lemma main_count_delete: "main_count_rows (delete_quest_row i qs) \<le> main_count_rows qs"
  unfolding main_count_rows_def delete_quest_row_def
  by (induction qs) auto

lemma main_count_insert:
  "main_count_rows (insert_quest q qs)
     = main_count_rows qs + (if category q = Some ''Main'' then 1 else 0)"
  by (simp add: main_count_rows_def insert_quest_def)

lemma main_count_fold_insert:
  "list_all (\<lambda>q. category q \<noteq> Some ''Main'') rows \<Longrightarrow>
   main_count_rows (fold insert_quest rows qs) = main_count_rows qs"
  by (induction rows arbitrary: qs) (simp_all add: main_count_insert)

lemma reorder_loop_preserves:
  "distinct (map qid qs) \<Longrightarrow>
   map qid (reorder_loop k items qs) = map qid qs
   \<and> main_count_rows (reorder_loop k items qs) = main_count_rows qs"
proof (induction items arbitrary: k qs)
  case Nil then show ?case by simp
next
  case (Cons it items)
  show ?case
  proof (cases "item_quest_id it")
    case None
    with Cons show ?thesis by simp
  next
    case (Some i)
    show ?thesis
    proof (cases "first (filter (\<lambda>q. qid q = i) qs)")
      case None
      with Some Cons show ?thesis by simp
    next
      case q: (Some q)
      let ?qs = "update_quest_row (q\<lparr>position := int k\<rparr>) qs"
      have d: "distinct (map qid ?qs)" using Cons.prems by (simp add: map_qid_update)
      have m: "main_count_rows ?qs = main_count_rows qs"
        by (rule main_count_update [OF Cons.prems q]) simp_all
      from Cons.IH [OF d, of "Suc k"] m show ?thesis
        by (simp add: Some q map_qid_update)
    qed
  qed
qed

lemma store_ok_same: "unique_ids d \<Longrightarrow> quests d' = quests d \<Longrightarrow> store_ok d d'"
  by (simp add: store_ok_def unique_ids_def main_count_def)

lemma store_ok_update:
  assumes "unique_ids d" "first (filter P (quests d)) = Some q" "qid q' = qid q"
    "category q' = category q" "quests d' = update_quest_row q' (quests d)"
  shows "store_ok d d'"
  using assms main_count_update [of "quests d" P q q']
  by (simp add: store_ok_def unique_ids_def main_count_alt map_qid_update)

lemma store_ok_toggle: "unique_ids d \<Longrightarrow> store_ok d (fst (toggle_quest i d))"
proof -
  assume u: "unique_ids d"
  show ?thesis
  proof (cases "quest_by_id d i")
    case None
    show ?thesis by (rule store_ok_same [OF u]) (simp add: toggle_quest_def None)
  next
    case q: (Some q)
    show ?thesis
    proof (cases "first (settings_rows d)")
      case None
      show ?thesis by (rule store_ok_same [OF u]) (simp add: toggle_quest_def q None)
    next
      case (Some s)
      show ?thesis
        by (rule store_ok_update [OF u q [unfolded quest_by_id_def],
              of "q\<lparr>is_completed := \<not> is_completed q\<rparr>"])
           (simp_all add: fst_toggle [OF q Some])
    qed
  qed
qed

lemma store_ok_update_quest: "unique_ids d \<Longrightarrow> store_ok d (fst (update_quest e i t dl d))"
proof -
  assume u: "unique_ids d"
  show ?thesis
  proof (cases "quest_by_id d i")
    case None
    show ?thesis by (rule store_ok_same [OF u]) (simp add: update_quest_def None)
  next
    case q: (Some q)
    show ?thesis
      by (rule store_ok_update [OF u q [unfolded quest_by_id_def]])
         (simp_all add: fst_update_quest [OF q])
  qed
qed

lemma store_ok_read_root: "unique_ids d \<Longrightarrow> store_ok d (fst (read_root e d))"
proof -
  assume u: "unique_ids d"
  show ?thesis
  proof (cases "first (settings_rows d)")
    case None
    show ?thesis by (rule store_ok_same [OF u]) (simp add: read_root_def None)
  next
    case s: (Some s)
    show ?thesis
    proof (cases "main_quest_of d")
      case None
      show ?thesis by (rule store_ok_same [OF u]) (simp add: read_root_def s None)
    next
      case m: (Some m)
      show ?thesis
      proof (cases "truthy_str (image_url m)")
        case True
        show ?thesis
          by (rule store_ok_same [OF u]) (simp add: read_root_def s m True Let_def)
      next
        case False
        show ?thesis
          by (rule store_ok_update [OF u m [unfolded main_quest_of_def],
                of "m\<lparr>image_url := Some (get_vision_image (title m))\<rparr>"])
             (simp_all add: read_root_def s m False Let_def)
      qed
    qed
  qed
qed

lemma store_ok_reorder: "unique_ids d \<Longrightarrow> store_ok d (fst (reorder_quests item d))"
  using reorder_loop_preserves [of "quests d" 0 item]
  by (simp add: store_ok_def unique_ids_def main_count_alt reorder_quests_def)

lemma store_ok_delete: "unique_ids d \<Longrightarrow> store_ok d (fst (delete_quest i d))"
proof -
  assume u: "unique_ids d"
  show ?thesis
  proof (cases "quest_by_id d i")
    case None
    show ?thesis by (rule store_ok_same [OF u]) (simp add: delete_quest_def None)
  next
    case (Some q)
    have "quests (fst (delete_quest i d)) = delete_quest_row (qid q) (quests d)"
      by (simp add: delete_quest_def Some Let_def split: option.splits)
    then show ?thesis
      using u main_count_delete [of "qid q" "quests d"]
      by (simp add: store_ok_def unique_ids_def main_count_alt delete_quest_row_def distinct_map_filter)
  qed
qed

lemma store_ok_add:
  "unique_ids d \<Longrightarrow> c \<noteq> ''Main'' \<Longrightarrow> store_ok d (fst (add_quest e t c d))"
  by (cases "main_quest_of d")
     (simp_all add: add_quest_def Let_def store_ok_def unique_ids_def main_count_alt
        main_count_insert distinct_insert_quest)

lemma store_ok_architect:
  "unique_ids d \<Longrightarrow> adds_no_main e AiArchitect d \<Longrightarrow> store_ok d (fst (ai_architect e d))"
proof (cases "main_quest_of d")
  case None
  assume "unique_ids d"
  then show ?thesis by (simp add: ai_architect_def None store_ok_def)
next
  case (Some m)
  assume u: "unique_ids d" and g: "adds_no_main e AiArchitect d"
  have "list_all (\<lambda>q. category q \<noteq> Some ''Main'')
          (map (quest_of_task e m) (enumerate 0 (generate_subquests e (title m))))"
    using g by (auto simp: Some list_all_iff quest_of_task_def enumerate_eq_zip dest!: set_zip_rightD)
  from main_count_fold_insert [OF this] u show ?thesis
    by (simp add: ai_architect_def Some Let_def store_ok_def unique_ids_def main_count_alt
        distinct_fold_insert)
qed

lemma store_ok_step:
  assumes u: "unique_ids d" and g: "adds_no_main e op d"
    and o: "\<And>g dl. op \<noteq> OnboardingSubmit g dl"
  shows "store_ok d (apply_op e op d)"
proof (cases op)
  case ReadRoot then show ?thesis using u by (simp add: store_ok_read_root)
next
  case (ReorderQuests x) then show ?thesis using u by (simp add: store_ok_reorder)
next
  case (UpdateSettings t h)
  then show ?thesis
    using u by (auto intro!: store_ok_same simp: update_settings_def split: option.splits)
next
  case AiArchitect then show ?thesis using u g by (simp add: store_ok_architect)
next
  case (ToggleQuest i) then show ?thesis using u by (simp add: store_ok_toggle)
next
  case (DeleteQuest i) then show ?thesis using u by (simp add: store_ok_delete)
next
  case (AddQuest t c) then show ?thesis using u g by (simp add: store_ok_add)
next
  case (EditQuestForm i)
  then show ?thesis
    using u by (auto intro!: store_ok_same simp: edit_quest_form_def split: option.splits)
next
  case (CancelEditQuest i)
  then show ?thesis using u by (auto intro!: store_ok_same simp: cancel_edit_quest_def)
next
  case (UpdateQuest i t dl) then show ?thesis using u by (simp add: store_ok_update_quest)
next
  case (OnboardingSubmit g dl) with o show ?thesis by blast
next
  case ResetData
  then show ?thesis by (simp add: reset_data_def store_ok_def unique_ids_def main_count_def)
qed

lemma onboarding_quests:
  "unique_ids d \<Longrightarrow> unique_ids (fst (onboarding_submit e g dl d))
     \<and> main_count (fst (onboarding_submit e g dl d)) = main_count d + 1"
  by (simp add: onboarding_submit_def Let_def unique_ids_def main_count_alt main_count_insert
      distinct_insert_quest)

lemma no_main_quest: "main_quest_of d = None \<Longrightarrow> main_count d = 0"
  unfolding main_quest_of_def main_count_def
  by (cases "filter (\<lambda>q. category q = Some ''Main'') (quests d)") simp_all

lemma guarded_step:
  assumes u: "unique_ids d" and m: "main_count d \<le> 1" and g: "adds_no_main e op d"
  shows "unique_ids (apply_op e op d) \<and> main_count (apply_op e op d) \<le> 1"
proof (cases "\<exists>g dl. op = OnboardingSubmit g dl")
  case True
  then obtain gl dl where op: "op = OnboardingSubmit gl dl" by blast
  from g have "main_count d = 0" by (simp add: op no_main_quest)
  with onboarding_quests [OF u, of e gl dl] show ?thesis by (simp add: op)
next
  case False
  then have "store_ok d (apply_op e op d)" by (intro store_ok_step [OF u g]) blast
  with m show ?thesis by (simp add: store_ok_def)
qed

lemma guarded_run_inv:
  "unique_ids d \<Longrightarrow> main_count d \<le> 1 \<Longrightarrow> guarded_run steps d \<Longrightarrow>
   unique_ids (run steps d) \<and> main_count (run steps d) \<le> 1"
proof (induction steps arbitrary: d)
  case Nil
  then show ?case by (simp add: run_def)
next
  case (Cons eo steps)
  from Cons.prems have g: "adds_no_main (fst eo) (snd eo) d"
    and r: "guarded_run steps (apply_op (fst eo) (snd eo) d)" by simp_all
  from guarded_step [OF Cons.prems(1,2) g]
  have "unique_ids (apply_op (fst eo) (snd eo) d)" "main_count (apply_op (fst eo) (snd eo) d) \<le> 1"
    by simp_all
  from Cons.IH [OF this r] show ?case by (simp add: run_def)
qed

lemma sample_guarded: "guarded_run sample_steps empty_db"
  by (simp add: sample_steps_def empty_db_def onboarding_submit_def insert_quest_def
      insert_settings_def add_quest_def ai_architect_def toggle_quest_def read_root_def
      main_quest_of_def quest_by_id_def children_of_def update_quest_row_def
      update_settings_row_def next_id_def sample_env_def quest_of_task_def enumerate_eq_zip
      Let_def)

subsection \<open>C9: at most one Main Quest\<close>

text \<open>
  C9, as stated, fails: nothing stops a second onboarding submit, and each one adds a
  quest of category Main.
\<close>

theorem two_main_quests_counterexample:
  "main_count (run [(sample_env, OnboardingSubmit ''Run a Marathon'' None),
                    (sample_env, OnboardingSubmit ''Learn French'' None)] empty_db) = 2"
  by (simp add: run_def empty_db_def onboarding_submit_def insert_quest_def main_count_def Let_def)

text \<open>
  C9 (amended): in a store with unique quest ids and at most one quest of category Main,
  every run of requests in which an onboarding submit is served only while no Main Quest
  exists, and no quest is created (quest add, Quest Architect) with the category Main,
  ends in a store with at most one quest of category Main. An onboarding submit always
  adds exactly one quest of category Main.
\<close>

theorem at_most_one_main:
  assumes "unique_ids d" "main_count d \<le> 1" "guarded_run steps d"
  shows "main_count (run steps d) \<le> 1
       \<and> main_count (apply_op e (OnboardingSubmit g dl) d) = main_count d + 1"
  using guarded_run_inv [OF assms] onboarding_quests [OF assms(1), of e g dl] by simp

theorem at_most_one_main_witness:
  "main_count (run sample_steps empty_db) \<le> 1
   \<and> main_count (apply_op sample_env (OnboardingSubmit ''Learn French'' None) empty_db) = 1"
proof -
  have u: "unique_ids empty_db" by (simp add: unique_ids_def empty_db_def)
  have m: "main_count empty_db \<le> 1" by (simp add: main_count_def empty_db_def)
  from at_most_one_main [OF u m sample_guarded, of sample_env "''Learn French''" None]
  show ?thesis by (simp add: main_count_def empty_db_def)
qed

subsection \<open>C4: the progress percentage\<close>

lemma progress_29_50: "progress_of 29 50 = 57"
  by (simp add: progress_of_def float_to_int_def float_mul_int_def true_div_def round_double_def
     ulp_exponent_def bit_length.simps rne_def Let_def)

lemma progress_no_children: "progress_of k 0 = 0"
  by (simp add: progress_of_def)

lemma progress_2_3: "progress_of 2 3 = 66"
  by (simp add: progress_of_def float_to_int_def float_mul_int_def true_div_def round_double_def
     ulp_exponent_def bit_length.simps rne_def Let_def)

lemma toggle_response_progress:
  assumes q: "quest_by_id d i = Some q" and s: "first (settings_rows d) = Some s"
    and p: "parent_id q = Some p" "p \<noteq> 0"
    and par: "quest_by_id (fst (toggle_quest i d)) p = Some parent"
  shows "map_sum id tr_progress (snd (toggle_quest i d))
     = Inr (progress_of (length (filter is_completed (children_of (fst (toggle_quest i d)) p)))
                        (length (children_of (fst (toggle_quest i d)) p)))"
proof -
  define d' where "d' = d\<lparr>quests := update_quest_row (q\<lparr>is_completed := \<not> is_completed q\<rparr>) (quests d),
       settings_rows := update_settings_row
         (if is_completed q
          then s\<lparr>xp := max 0 (xp s - 100), level := 1 + max 0 (xp s - 100) div 500\<rparr>
          else s\<lparr>xp := xp s + 100, level := 1 + (xp s + 100) div 500\<rparr>) (settings_rows d)\<rparr>"
  have fd: "fst (toggle_quest i d) = d'"
    unfolding d'_def by (rule fst_toggle [OF q s])
  have par': "quest_by_id d' p = Some parent" using par by (simp add: fd)
  have pp: "qid parent = p" by (rule quest_by_id_qid [OF par'])
  have "map_sum id tr_progress (snd (toggle_quest i d))
     = Inr (progress_of (length (filter is_completed (children_of d' p)))
                        (length (children_of d' p)))"
    using par' pp p unfolding d'_def
    by (cases "is_completed q") (simp_all add: toggle_quest_def q s Let_def)
  then show ?thesis by (simp add: fd)
qed

text \<open>
  C4 fails on the code: with 50 children of which the toggle makes 29 completed, the
  double \<open>29 / 50\<close> times \<open>100\<close> is just below 58 and \<^verbatim>\<open>int\<close> truncates it to 57,
  while \<open>floor (100 * 29 / 50) = 58\<close>.
\<close>

theorem progress_rounds_down:
  "map_sum id tr_progress (snd (toggle_quest 30 crowd_db)) = Inr 57
   \<and> length (filter is_completed (children_of (fst (toggle_quest 30 crowd_db)) 1)) = 29
   \<and> length (children_of (fst (toggle_quest 30 crowd_db)) 1) = 50
   \<and> (100 * 29) div 50 = (58 :: int)"
proof -
  define d' where "d' = fst (toggle_quest 30 crowd_db)"
  have q: "quest_by_id crowd_db 30 = Some (crowd_child 30)"
    by (simp add: quest_by_id_def crowd_db_def crowd_child_def sample_quest_def)
  have s: "first (settings_rows crowd_db) = Some (fresh_settings\<lparr>xp := 2800, level := 6\<rparr>)"
    by (simp add: crowd_db_def)
  have qs: "quests d' = update_quest_row ((crowd_child 30)\<lparr>is_completed := True\<rparr>) (quests crowd_db)"
    unfolding d'_def by (simp add: fst_toggle [OF q s] crowd_child_def)
  have par: "quest_by_id d' 1 = Some (sample_quest\<lparr>is_completed := False\<rparr>)"
    by (simp add: quest_by_id_def qs crowd_db_def crowd_child_def sample_quest_def update_quest_row_def)
  have c: "length (filter is_completed (children_of d' 1)) = 29"
    by (simp add: children_of_def qs crowd_db_def crowd_child_def sample_quest_def update_quest_row_def)
  have t: "length (children_of d' 1) = 50"
    by (simp add: children_of_def qs crowd_db_def crowd_child_def sample_quest_def update_quest_row_def)
  have p: "parent_id (crowd_child 30) = Some 1" by (simp add: crowd_child_def)
  have "map_sum id tr_progress (snd (toggle_quest 30 crowd_db))
      = Inr (progress_of (length (filter is_completed (children_of d' 1))) (length (children_of d' 1)))"
    unfolding d'_def by (rule toggle_response_progress [OF q s p _ par [unfolded d'_def]]) simp
  then have "map_sum id tr_progress (snd (toggle_quest 30 crowd_db)) = Inr 57"
    by (simp only: c t progress_29_50)
  with c t show ?thesis unfolding d'_def by simp
qed

subsection \<open>C7: duration texts\<close>

lemma days_to_add_factor:
  "days_to_add_of text = first_integer (lower text) * unit_factor (lower text)"
  by (simp add: days_to_add_of_def first_integer_def unit_factor_def Let_def)

lemma fold_insert_quest:
  "\<exists>ids. length ids = length rows
       \<and> fold insert_quest rows qs = qs @ map2 (\<lambda>r i. r\<lparr>qid := i\<rparr>) rows ids"
proof (induction rows arbitrary: qs)
  case Nil
  then show ?case by simp
next
  case (Cons r rows)
  from Cons.IH [of "insert_quest r qs"] obtain ids where
    l: "length ids = length rows" and
    f: "fold insert_quest rows (insert_quest r qs)
          = insert_quest r qs @ map2 (\<lambda>r i. r\<lparr>qid := i\<rparr>) rows ids" by blast
  have "fold insert_quest (r # rows) qs
      = insert_quest r qs @ map2 (\<lambda>r i. r\<lparr>qid := i\<rparr>) rows ids"
    by (simp add: f)
  also have "\<dots> = qs @ map2 (\<lambda>r i. r\<lparr>qid := i\<rparr>) (r # rows) (next_id (map qid qs) # ids)"
    by (simp add: insert_quest_def)
  finally show ?case
    using l by (intro exI [of _ "next_id (map qid qs) # ids"]) simp
qed

lemma architect_row:
  assumes m: "main_quest_of d = Some m" and i: "i < length (generate_subquests e (title m))"
  shows "\<exists>n. quests (fst (ai_architect e d)) ! (length (quests d) + i)
       = (quest_of_task e m (i, generate_subquests e (title m) ! i))\<lparr>qid := n\<rparr>"
proof -
  let ?tasks = "generate_subquests e (title m)"
  let ?rows = "map (quest_of_task e m) (enumerate 0 ?tasks)"
  obtain ids where l: "length ids = length ?rows"
    and f: "fold insert_quest ?rows (quests d) = quests d @ map2 (\<lambda>r i. r\<lparr>qid := i\<rparr>) ?rows ids"
    using fold_insert_quest [of ?rows "quests d"] by blast
  have "quests (fst (ai_architect e d)) = quests d @ map2 (\<lambda>r i. r\<lparr>qid := i\<rparr>) ?rows ids"
    by (simp add: ai_architect_def m Let_def f)
  then have "quests (fst (ai_architect e d)) ! (length (quests d) + i)
      = (?rows ! i)\<lparr>qid := ids ! i\<rparr>"
    using i l by (simp add: nth_append)
  also have "?rows ! i = quest_of_task e m (i, ?tasks ! i)"
    using i by (simp add: nth_enumerate_eq)
  finally show ?thesis by blast
qed

lemma duration_examples:
  "days_to_add_of ''2 weeks'' = 14" "days_to_add_of ''1 month'' = 30"
  "days_to_add_of ''10 days'' = 10" "days_to_add_of ''soon'' = 0"
  by (simp_all add: days_to_add_of_def lower_def lower_char_def search_digits_def is_digit_def
      digit_val_def digits_value_def Let_def)

text \<open>
  C7, as stated, fails: for the duration text \<^verbatim>\<open>0 days\<close> the unit keyword
  \<^verbatim>\<open>day\<close> matches and the product is 0 days, yet the sub-quest gets no deadline.
\<close>

theorem zero_days_counterexample:
  "map deadline (drop 1 (quests (fst (ai_architect zero_days_env earned_db)))) = [None]
   \<and> contains ''day'' (lower ''0 days'')
   \<and> first_integer (lower ''0 days'') = 0"
  by (simp add: ai_architect_def zero_days_env_def sample_env_def earned_db_def main_quest_of_def
      sample_quest_def quest_of_task_def insert_quest_def deadline_of_duration_def
      days_to_add_of_def first_integer_def lower_def lower_char_def search_digits_def
      is_digit_def digit_val_def digits_value_def enumerate_eq_zip Let_def)

text \<open>
  C7 (amended): for the sub-quest created from the \<open>i\<close>-th task, the day count is the
  first integer of the lower-cased duration text (1 if none) times the factor of the
  first unit keyword in the order month = 30, week = 7, day = 1, year = 365. If the day
  count is positive, at most 999999999, and the date that many days from now is not
  beyond the year 9999, the deadline is that date; otherwise (no unit keyword, a count of
  0, or an overflow) the deadline is null. In every case the description is
  \<^verbatim>\<open>Duration: \<close> followed by the original duration text, and the parent is the Main
  Quest.
\<close>

theorem architect_deadline:
  assumes m: "main_quest_of d = Some m" and i: "i < length (generate_subquests e (title m))"
  shows "let task = generate_subquests e (title m) ! i;
             q = quests (fst (ai_architect e d)) ! (length (quests d) + i);
             days = first_integer (lower (t_deadline task)) * unit_factor (lower (t_deadline task))
         in description q = Some (''Duration: '' @ t_deadline task)
          \<and> parent_id q = Some (qid m)
          \<and> deadline q =
              (if 0 < days \<and> days \<le> 999999999 \<and> now e i + days * 86400000000 \<le> max_datetime
               then Some (now e i + days * 86400000000) else None)"
proof -
  from architect_row [OF m i] obtain n where
    "quests (fst (ai_architect e d)) ! (length (quests d) + i)
       = (quest_of_task e m (i, generate_subquests e (title m) ! i))\<lparr>qid := n\<rparr>" ..
  then show ?thesis
    by (auto simp add: Let_def quest_of_task_def deadline_of_duration_def add_days_def
        days_to_add_factor)
qed

theorem architect_deadline_witness:
  "let q = quests (fst (ai_architect sample_env earned_db)) ! 1
   in description q = Some ''Duration: 1 week'' \<and> parent_id q = Some 1
    \<and> deadline q = Some 63845366400000000"
proof -
  have m: "main_quest_of earned_db = Some sample_quest"
    by (simp add: main_quest_of_def earned_db_def sample_quest_def)
  have i: "0 < length (generate_subquests sample_env (title sample_quest))"
    by (simp add: sample_env_def)
  have f: "first_integer (lower ''1 week'') * unit_factor (lower ''1 week'') = 7"
    by (simp add: first_integer_def unit_factor_def lower_def lower_char_def search_digits_def
        is_digit_def digit_val_def digits_value_def)
  from architect_deadline [OF m i] show ?thesis
    by (simp add: Let_def sample_env_def f max_datetime_def earned_db_def sample_quest_def)
qed

subsection \<open>C5: where the Quest Architect puts a sub-quest\<close>

text \<open>
  C5 fails on the code: the sub-quests of the Quest Architect are children of the Main
  Quest, but they are stored with the default position 0, not with the number of
  siblings as a quest added by hand is. After two quests added by hand (positions 0 and
  1), the sub-quest of the architect sorts between them, not after them; a quest added
  by hand afterwards gets position 3.
\<close>

theorem architect_position_zero:
  "map (\<lambda>q. (title q, position q)) (sort_key position (children_of (run family_steps empty_db) 1))
     = [(''Buy shoes'', 0), (''Research Running Shoes'', 0), (''Join a club'', 1)]
   \<and> map (\<lambda>q. (title q, position q))
        (children_of (run (family_steps @ [(sample_env, AddQuest ''Stretch'' ''Health'')]) empty_db) 1)
     = [(''Buy shoes'', 0), (''Join a club'', 1), (''Research Running Shoes'', 0), (''Stretch'', 3)]"
  by (simp add: family_steps_def run_def empty_db_def onboarding_submit_def insert_quest_def
      insert_settings_def add_quest_def ai_architect_def
      main_quest_of_def children_of_def next_id_def sample_env_def quest_of_task_def
      enumerate_eq_zip Let_def)

subsection \<open>Toggle symmetry in the stores reached from the empty one\<close>

lemma map_field_update:
  assumes "distinct (map qid qs)" "q \<in> set qs" "qid q' = qid q" "f q' = f q"
  shows "map f (update_quest_row q' qs) = map f qs"
  unfolding update_quest_row_def
  using distinct_qid_eq [OF assms(1) _ assms(2)] assms(3,4) by (auto simp: map_eq_conv)

lemma count_completed_map:
  "map is_completed qs' = map is_completed qs \<Longrightarrow>
   length (filter is_completed qs') = length (filter is_completed qs)"
proof (induction qs' arbitrary: qs)
  case Nil
  then show ?case by simp
next
  case (Cons a as)
  then obtain b bs where qs: "qs = b # bs" and c: "is_completed a = is_completed b"
    and r: "map is_completed as = map is_completed bs"
    by (cases qs) auto
  from Cons.IH [OF r] c show ?case by (simp add: qs)
qed

lemma count_update_same:
  assumes "distinct (map qid qs)" "first (filter P qs) = Some q" "qid q' = qid q"
    "is_completed q' = is_completed q"
  shows "length (filter is_completed (update_quest_row q' qs)) = length (filter is_completed qs)"
  using assms first_filter_holds [OF assms(2)]
  by (intro count_completed_map map_field_update) auto

lemma count_update_flip:
  assumes "distinct (map qid qs)" "q \<in> set qs"
  shows "int (length (filter is_completed (update_quest_row (q\<lparr>is_completed := \<not> is_completed q\<rparr>) qs)))
       = int (length (filter is_completed qs)) + (if is_completed q then - 1 else 1)"
  using assms
proof (induction qs)
  case Nil
  then show ?case by simp
next
  case (Cons a qs)
  show ?case
  proof (cases "a = q")
    case True
    from Cons.prems(1) have "\<forall>r \<in> set qs. qid r \<noteq> qid q"
      by (auto simp: True image_iff)
    then have "update_quest_row (q\<lparr>is_completed := \<not> is_completed q\<rparr>) qs = qs"
      by (simp add: update_quest_row_def map_idI)
    then show ?thesis by (simp add: True update_quest_row_def)
  next
    case False
    with Cons.prems have q: "q \<in> set qs" and d: "distinct (map qid qs)" by auto
    from Cons.prems(1) q have "qid a \<noteq> qid q" by (auto simp: image_iff)
    with Cons.IH [OF d q] show ?thesis by (simp add: update_quest_row_def)
  qed
qed

lemma earned_ok_keep:
  assumes "earned_ok d" "unique_ids d'" "completed_count d' \<le> completed_count d"
    "quests d = [] \<Longrightarrow> first (settings_rows d) = None \<Longrightarrow> quests d' = []"
    "map_option xp (first (settings_rows d')) = map_option xp (first (settings_rows d))"
  shows "earned_ok d'"
  using assms by (auto simp: earned_ok_def split: option.splits)

lemma earned_ok_same:
  "earned_ok d \<Longrightarrow> quests d' = quests d \<Longrightarrow>
   map_option xp (first (settings_rows d')) = map_option xp (first (settings_rows d)) \<Longrightarrow>
   earned_ok d'"
  by (rule earned_ok_keep) (simp_all add: earned_ok_def unique_ids_def completed_count_def)

lemma earned_ok_update:
  assumes e: "earned_ok d" and q: "first (filter P (quests d)) = Some q" and i: "qid q' = qid q"
    and c: "is_completed q' = is_completed q"
    and qs: "quests d' = update_quest_row q' (quests d)"
    and x: "map_option xp (first (settings_rows d')) = map_option xp (first (settings_rows d))"
  shows "earned_ok d'"
proof (rule earned_ok_keep [OF e _ _ _ x])
  from e have u: "distinct (map qid (quests d))" by (simp add: earned_ok_def unique_ids_def)
  show "unique_ids d'" using u by (simp add: unique_ids_def qs map_qid_update)
  show "completed_count d' \<le> completed_count d"
    by (simp add: completed_count_def qs count_update_same [OF u q i c])
  show "quests d = [] \<Longrightarrow> quests d' = []" by (simp add: qs update_quest_row_def)
qed

lemma xp_view_update:
  "first ss = Some s \<Longrightarrow> sid s' = sid s \<Longrightarrow>
   map_option xp (first (update_settings_row s' ss)) = Some (xp s')"
  by (simp add: first_update_settings)

lemma earned_ok_toggle: "earned_ok d \<Longrightarrow> earned_ok (fst (toggle_quest i d))"
proof -
  assume e: "earned_ok d"
  show ?thesis
  proof (cases "quest_by_id d i")
    case None
    with e show ?thesis by (simp add: toggle_quest_def)
  next
    case q: (Some q)
    show ?thesis
    proof (cases "first (settings_rows d)")
      case None
      with q e show ?thesis by (simp add: toggle_quest_def)
    next
      case (Some s)
      from e have u: "distinct (map qid (quests d))" by (simp add: earned_ok_def unique_ids_def)
      from e Some have x: "100 * int (length (filter is_completed (quests d))) \<le> xp s"
        by (simp add: earned_ok_def completed_count_def)
      have m: "q \<in> set (quests d)"
        using first_filter_holds [OF q [unfolded quest_by_id_def]] by simp
      note f = count_update_flip [OF u m]
      show ?thesis
        unfolding fst_toggle [OF q Some] earned_ok_def
        using u x f Some
        by (cases "is_completed q")
           (simp_all add: unique_ids_def map_qid_update completed_count_def first_update_settings)
    qed
  qed
qed

lemma count_insert_quest:
  "length (filter is_completed (insert_quest q qs))
     = length (filter is_completed qs) + (if is_completed q then 1 else 0)"
  by (simp add: insert_quest_def)

lemma count_fold_insert:
  "list_all (\<lambda>q. \<not> is_completed q) rows \<Longrightarrow>
   length (filter is_completed (fold insert_quest rows qs)) = length (filter is_completed qs)"
  by (induction rows arbitrary: qs) (simp_all add: count_insert_quest)

lemma fold_insert_nonempty: "qs \<noteq> [] \<Longrightarrow> fold insert_quest rows qs \<noteq> []"
  by (induction rows arbitrary: qs) (simp_all add: insert_quest_def)

lemma main_quest_nonempty: "main_quest_of d = Some m \<Longrightarrow> quests d \<noteq> []"
  unfolding main_quest_of_def by (drule first_filter_holds) auto

lemma earned_ok_architect: "earned_ok d \<Longrightarrow> earned_ok (fst (ai_architect e d))"
proof (cases "main_quest_of d")
  case None
  assume "earned_ok d"
  then show ?thesis by (simp add: ai_architect_def None)
next
  case (Some m)
  assume e: "earned_ok d"
  let ?rows = "map (quest_of_task e m) (enumerate 0 (generate_subquests e (title m)))"
  have r: "list_all (\<lambda>q. \<not> is_completed q) ?rows"
    by (simp add: list_all_iff quest_of_task_def)
  have q: "quests (fst (ai_architect e d)) = fold insert_quest ?rows (quests d)"
    and s: "settings_rows (fst (ai_architect e d)) = settings_rows d"
    by (simp_all add: ai_architect_def Some Let_def)
  show ?thesis
  proof (rule earned_ok_keep [OF e])
    show "unique_ids (fst (ai_architect e d))"
      using e by (simp add: unique_ids_def earned_ok_def q distinct_fold_insert)
    show "completed_count (fst (ai_architect e d)) \<le> completed_count d"
      by (simp add: completed_count_def q count_fold_insert [OF r])
    show "quests d = [] \<Longrightarrow> quests (fst (ai_architect e d)) = []"
      using main_quest_nonempty [OF Some] by simp
    show "map_option xp (first (settings_rows (fst (ai_architect e d))))
        = map_option xp (first (settings_rows d))" by (simp add: s)
  qed
qed

lemma earned_ok_add: "earned_ok d \<Longrightarrow> earned_ok (fst (add_quest e t c d))"
proof (cases "main_quest_of d")
  case None
  assume "earned_ok d"
  then show ?thesis by (simp add: add_quest_def None)
next
  case (Some m)
  assume e: "earned_ok d"
  show ?thesis
  proof (rule earned_ok_keep [OF e])
    show "unique_ids (fst (add_quest e t c d))"
      using e by (simp add: unique_ids_def earned_ok_def add_quest_def Some Let_def
          distinct_insert_quest)
    show "completed_count (fst (add_quest e t c d)) \<le> completed_count d"
      by (simp add: completed_count_def add_quest_def Some Let_def count_insert_quest)
    show "quests d = [] \<Longrightarrow> quests (fst (add_quest e t c d)) = []"
      using main_quest_nonempty [OF Some] by simp
    show "map_option xp (first (settings_rows (fst (add_quest e t c d))))
        = map_option xp (first (settings_rows d))"
      by (simp add: add_quest_def Some Let_def)
  qed
qed

lemma first_None_iff: "first xs = None \<longleftrightarrow> xs = []"
  by (cases xs) auto

lemma earned_ok_onboarding: "earned_ok d \<Longrightarrow> earned_ok (fst (onboarding_submit e g dl d))"
proof (cases "first (settings_rows d)")
  case None
  assume e: "earned_ok d"
  from None have s: "settings_rows d = []" by (simp add: first_None_iff)
  from e None have q: "quests d = []" by (simp add: earned_ok_def)
  show ?thesis
    by (simp add: earned_ok_def unique_ids_def completed_count_def onboarding_submit_def Let_def
        insert_quest_def insert_settings_def s q)
next
  case (Some s)
  assume e: "earned_ok d"
  show ?thesis
  proof (rule earned_ok_keep [OF e])
    show "unique_ids (fst (onboarding_submit e g dl d))"
      using e by (simp add: unique_ids_def earned_ok_def onboarding_submit_def Let_def
          distinct_insert_quest)
    show "completed_count (fst (onboarding_submit e g dl d)) \<le> completed_count d"
      by (simp add: completed_count_def onboarding_submit_def Let_def count_insert_quest)
    show "first (settings_rows d) = None \<Longrightarrow> quests (fst (onboarding_submit e g dl d)) = []"
      by (simp add: Some)
    show "map_option xp (first (settings_rows (fst (onboarding_submit e g dl d))))
        = map_option xp (first (settings_rows d))"
      by (simp add: onboarding_submit_def Let_def Some)
  qed
qed

lemma reorder_loop_completed:
  "distinct (map qid qs) \<Longrightarrow>
   map qid (reorder_loop k items qs) = map qid qs
   \<and> length (filter is_completed (reorder_loop k items qs)) = length (filter is_completed qs)
   \<and> length (reorder_loop k items qs) = length qs"
proof (induction items arbitrary: k qs)
  case Nil then show ?case by simp
next
  case (Cons it items)
  show ?case
  proof (cases "item_quest_id it")
    case None
    with Cons show ?thesis by simp
  next
    case (Some i)
    show ?thesis
    proof (cases "first (filter (\<lambda>q. qid q = i) qs)")
      case None
      with Some Cons show ?thesis by simp
    next
      case q: (Some q)
      let ?qs = "update_quest_row (q\<lparr>position := int k\<rparr>) qs"
      have d: "distinct (map qid ?qs)" using Cons.prems by (simp add: map_qid_update)
      have m: "length (filter is_completed ?qs) = length (filter is_completed qs)"
        by (rule count_update_same [OF Cons.prems q]) simp_all
      have l: "length ?qs = length qs" by (simp add: update_quest_row_def)
      from Cons.IH [OF d, of "Suc k"] m l show ?thesis
        by (simp add: Some q map_qid_update)
    qed
  qed
qed

lemma earned_ok_reorder: "earned_ok d \<Longrightarrow> earned_ok (fst (reorder_quests item d))"
proof -
  assume e: "earned_ok d"
  then have u: "distinct (map qid (quests d))" by (simp add: earned_ok_def unique_ids_def)
  note r = reorder_loop_completed [OF u, of 0 item]
  show ?thesis
  proof (rule earned_ok_keep [OF e])
    show "unique_ids (fst (reorder_quests item d))"
      using u r by (simp add: unique_ids_def reorder_quests_def)
    show "completed_count (fst (reorder_quests item d)) \<le> completed_count d"
      using r by (simp add: completed_count_def reorder_quests_def)
    show "quests d = [] \<Longrightarrow> quests (fst (reorder_quests item d)) = []"
      using r by (simp add: reorder_quests_def)
    show "map_option xp (first (settings_rows (fst (reorder_quests item d))))
        = map_option xp (first (settings_rows d))"
      by (simp add: reorder_quests_def)
  qed
qed

lemma count_delete:
  "length (filter is_completed (delete_quest_row i qs)) \<le> length (filter is_completed qs)"
  unfolding delete_quest_row_def by (induction qs) auto

lemma earned_ok_delete: "earned_ok d \<Longrightarrow> earned_ok (fst (delete_quest i d))"
proof -
  assume e: "earned_ok d"
  show ?thesis
  proof (cases "quest_by_id d i")
    case None
    with e show ?thesis by (simp add: delete_quest_def)
  next
    case (Some q)
    have q: "quests (fst (delete_quest i d)) = delete_quest_row (qid q) (quests d)"
      and s: "settings_rows (fst (delete_quest i d)) = settings_rows d"
      by (simp_all add: delete_quest_def Some Let_def split: option.splits)
    show ?thesis
    proof (rule earned_ok_keep [OF e])
      show "unique_ids (fst (delete_quest i d))"
        using e by (simp add: unique_ids_def earned_ok_def q delete_quest_row_def
            distinct_map_filter)
      show "completed_count (fst (delete_quest i d)) \<le> completed_count d"
        by (simp add: completed_count_def q count_delete)
      show "quests d = [] \<Longrightarrow> quests (fst (delete_quest i d)) = []"
        by (simp add: q delete_quest_row_def)
      show "map_option xp (first (settings_rows (fst (delete_quest i d))))
          = map_option xp (first (settings_rows d))" by (simp add: s)
    qed
  qed
qed

lemma earned_ok_update_quest: "earned_ok d \<Longrightarrow> earned_ok (fst (update_quest e i t dl d))"
proof -
  assume ok: "earned_ok d"
  show ?thesis
  proof (cases "quest_by_id d i")
    case None
    with ok show ?thesis by (simp add: update_quest_def)
  next
    case q: (Some q)
    show ?thesis
      by (rule earned_ok_update [OF ok q [unfolded quest_by_id_def]])
         (simp_all add: fst_update_quest [OF q])
  qed
qed

lemma earned_ok_update_settings: "earned_ok d \<Longrightarrow> earned_ok (fst (update_settings t h d))"
proof -
  assume ok: "earned_ok d"
  show ?thesis
  proof (cases "first (settings_rows d)")
    case None
    with ok show ?thesis by (simp add: update_settings_def)
  next
    case (Some s)
    show ?thesis
      by (rule earned_ok_same [OF ok])
         (simp_all add: update_settings_def Some first_update_settings)
  qed
qed

lemma earned_ok_read_root: "earned_ok d \<Longrightarrow> earned_ok (fst (read_root e d))"
proof -
  assume ok: "earned_ok d"
  show ?thesis
  proof (cases "first (settings_rows d)")
    case None
    with ok show ?thesis by (simp add: read_root_def)
  next
    case s: (Some s)
    show ?thesis
    proof (cases "main_quest_of d")
      case None
      with ok s show ?thesis by (simp add: read_root_def)
    next
      case m: (Some m)
      define m' where "m' = (if \<not> truthy_str (image_url m)
                             then m\<lparr>image_url := Some (get_vision_image (title m))\<rparr> else m)"
      have x: "map_option xp (first (settings_rows (fst (read_root e d))))
          = map_option xp (first (settings_rows d))"
        by (simp add: read_root_def s m Let_def first_update_settings)
      show ?thesis
      proof (cases "truthy_str (image_url m)")
        case True
        show ?thesis
          by (rule earned_ok_same [OF ok _ x]) (simp add: read_root_def s m True Let_def)
      next
        case False
        show ?thesis
          by (rule earned_ok_update [OF ok m [unfolded main_quest_of_def],
                of "m\<lparr>image_url := Some (get_vision_image (title m))\<rparr>", OF _ _ _ x])
             (simp_all add: read_root_def s m False Let_def)
      qed
    qed
  qed
qed

lemma earned_ok_step: "earned_ok d \<Longrightarrow> earned_ok (apply_op e op d)"
proof (cases op)
  case ReadRoot then show "earned_ok d \<Longrightarrow> ?thesis" by (simp add: earned_ok_read_root)
next
  case (ReorderQuests x) then show "earned_ok d \<Longrightarrow> ?thesis" by (simp add: earned_ok_reorder)
next
  case (UpdateSettings t h)
  then show "earned_ok d \<Longrightarrow> ?thesis" by (simp add: earned_ok_update_settings)
next
  case AiArchitect then show "earned_ok d \<Longrightarrow> ?thesis" by (simp add: earned_ok_architect)
next
  case (ToggleQuest i) then show "earned_ok d \<Longrightarrow> ?thesis" by (simp add: earned_ok_toggle)
next
  case (DeleteQuest i) then show "earned_ok d \<Longrightarrow> ?thesis" by (simp add: earned_ok_delete)
next
  case (AddQuest t c) then show "earned_ok d \<Longrightarrow> ?thesis" by (simp add: earned_ok_add)
next
  case (EditQuestForm i)
  then show "earned_ok d \<Longrightarrow> ?thesis" by (simp add: edit_quest_form_def split: option.splits)
next
  case (CancelEditQuest i)
  then show "earned_ok d \<Longrightarrow> ?thesis" by (simp add: cancel_edit_quest_def)
next
  case (UpdateQuest i t dl)
  then show "earned_ok d \<Longrightarrow> ?thesis" by (simp add: earned_ok_update_quest)
next
  case (OnboardingSubmit g dl)
  then show "earned_ok d \<Longrightarrow> ?thesis" by (simp add: earned_ok_onboarding)
next
  case ResetData
  then show "earned_ok d \<Longrightarrow> ?thesis"
    by (simp add: reset_data_def earned_ok_def unique_ids_def)
qed

lemma earned_ok_run: "earned_ok d \<Longrightarrow> earned_ok (run steps d)"
  unfolding run_def by (induction steps arbitrary: d) (simp_all add: earned_ok_step)

lemma earned_ok_empty: "earned_ok empty_db"
  by (simp add: earned_ok_def unique_ids_def empty_db_def)

lemma completed_member:
  "q \<in> set qs \<Longrightarrow> is_completed q \<Longrightarrow> 0 < length (filter is_completed qs)"
  by (induction qs) auto

text \<open>In a store reached from the empty one, two toggles of an existing quest restore the Settings row.\<close>

lemma reached_toggle_twice:
  assumes q: "quest_by_id (run steps empty_db) i = Some q"
  shows "\<exists>s. first (settings_rows (run steps empty_db)) = Some s
       \<and> first (settings_rows (fst (toggle_quest i (fst (toggle_quest i (run steps empty_db))))))
           = Some s"
proof -
  let ?d = "run steps empty_db"
  have e: "earned_ok ?d" by (rule earned_ok_run [OF earned_ok_empty])
  have o: "settings_ok ?d" by (rule settings_ok_run [OF settings_ok_empty])
  have m: "q \<in> set (quests ?d)"
    using first_filter_holds [OF q [unfolded quest_by_id_def]] by simp
  then have "quests ?d \<noteq> []" by auto
  with e obtain s where s: "first (settings_rows ?d) = Some s"
    by (auto simp: earned_ok_def split: option.splits)
  from e s have x: "100 * int (length (filter is_completed (quests ?d))) \<le> xp s"
    by (simp add: earned_ok_def completed_count_def)
  have c: "is_completed q \<Longrightarrow> 0 < length (filter is_completed (quests ?d))"
    by (rule completed_member [OF m])
  have lv: "level s = 1 + xp s div 500"
    using first_row_ok [OF o s] by (simp add: row_ok_def)
  have "if is_completed q then 100 \<le> xp s else 0 \<le> xp s"
  proof (cases "is_completed q")
    case True
    from c [OF True] have "1 \<le> int (length (filter is_completed (quests ?d)))"
      by linarith
    with x have "100 \<le> xp s" by linarith
    with True show ?thesis by simp
  next
    case False
    from x have "0 \<le> xp s" by linarith
    with False show ?thesis by simp
  qed
  from toggle_twice_settings [OF q s lv this] s show ?thesis by blast
qed

end
